theory Spec2Isabelle
  imports Complex_Main "HOL-Library.Sublist" "HOL-Library.Multiset" "HOL-Library.Log_Nat"
begin

section \<open>Strings\<close>

text \<open>
  A JavaScript string is modelled as a \<^typ>\<open>string\<close>, one \<^typ>\<open>char\<close> per code unit
  in the range U+0000..U+00FF. In that range \<open>\s\<close> (and \<open>String.prototype.trim\<close>)
  match tab, line feed, vertical tab, form feed, carriage return, space and the
  no-break space U+00A0.
\<close>

definition isSpace :: "char \<Rightarrow> bool" where
  "isSpace c = (c \<in> {CHR 0x09, CHR 0x0A, CHR 0x0B, CHR 0x0C, CHR 0x0D, CHR 0x20, CHR 0xA0})"

text \<open>\<open>String.prototype.trim\<close>.\<close>

definition trim :: "string \<Rightarrow> string" where
  "trim s = rev (dropWhile isSpace (rev (dropWhile isSpace s)))"

text \<open>\<open>Array.prototype.join(' ')\<close> on an array of strings.\<close>

fun join :: "string list \<Rightarrow> string" where
  "join [] = []"
| "join [s] = s"
| "join (s # t # ss) = s @ '' '' @ join (t # ss)"

section \<open>Token counter (src/utils/tokenCounter.ts)\<close>

definition CHARS_PER_TOKEN :: nat where
  "CHARS_PER_TOKEN = 4"

text \<open>
  \<open>countTokens\<close>: 0 for the empty string, otherwise
  \<open>Math.ceil(text.length / CHARS_PER_TOKEN)\<close>.
\<close>

definition countTokens :: "string \<Rightarrow> nat" where
  "countTokens text =
     (if length text = 0 then 0
      else (length text + (CHARS_PER_TOKEN - 1)) div CHARS_PER_TOKEN)"

section \<open>Chunker (src/lib/chunker.ts)\<close>

subsection \<open>Data\<close>

text \<open>
  \<open>ChunkOptions\<close> has three optional numeric fields; \<open>None\<close> is an absent field.
  A field holds a finite double, which is a rational number; \<open>NaN\<close> and the
  infinities are not covered. Token counts and their sums are integers below
  \<open>2^53\<close>, on which the source's double arithmetic is exact; the one place where
  doubles round, the overlap target, rounds in the model too (see
  \<open>overlapTokenTarget\<close>).
\<close>

record ChunkOptions =
  minTokens :: "rat option"
  maxTokens :: "rat option"
  overlapPercentage :: "rat option"

record RequiredChunkOptions =
  req_minTokens :: rat
  req_maxTokens :: rat
  req_overlapPercentage :: rat

datatype Position = Start | Middle | End

record ChunkMeta =
  meta_page_no :: int
  meta_chunk_index :: nat
  position :: Position
  has_overlap :: bool

text \<open>
  The field \<open>content_hash\<close> (the SHA-256 digest of \<open>content\<close>, computed by the
  platform's crypto library) is left out of the record: it is a function of
  \<open>content\<close> alone and takes no part in the control flow.
\<close>

record Chunk =
  content :: string
  token_count :: nat
  page_no :: int
  chunk_index :: nat
  meta :: ChunkMeta

record Page =
  pageNo :: int
  pageText :: string

definition DEFAULT_OPTIONS :: RequiredChunkOptions where
  "DEFAULT_OPTIONS =
     \<lparr>req_minTokens = 600, req_maxTokens = 1200, req_overlapPercentage = 25 / 2\<rparr>"

text \<open>The spread \<open>{ ...DEFAULT_OPTIONS, ...options }\<close>.\<close>

definition mergeOptions :: "ChunkOptions \<Rightarrow> RequiredChunkOptions" where
  "mergeOptions options =
     \<lparr>req_minTokens = (case minTokens options of None \<Rightarrow> req_minTokens DEFAULT_OPTIONS | Some v \<Rightarrow> v),
      req_maxTokens = (case maxTokens options of None \<Rightarrow> req_maxTokens DEFAULT_OPTIONS | Some v \<Rightarrow> v),
      req_overlapPercentage =
        (case overlapPercentage options of None \<Rightarrow> req_overlapPercentage DEFAULT_OPTIONS | Some v \<Rightarrow> v)\<rparr>"

definition noOptions :: ChunkOptions where
  "noOptions = \<lparr>minTokens = None, maxTokens = None, overlapPercentage = None\<rparr>"

subsection \<open>splitIntoSentences\<close>

definition isTerminator :: "char \<Rightarrow> bool" where
  "isTerminator c = (c \<in> {CHR ''.'', CHR ''!'', CHR ''?''})"

text \<open>
  \<open>text.match(/[^.!?]+[.!?]+|[^.!?]+$/g) || []\<close>. A match cannot begin at a
  terminator, so the search skips terminators; from any other character the greedy
  \<open>[^.!?]+\<close> takes the whole run of non-terminators, and that run is followed either
  by terminators (first alternative, all of them taken) or by the end of the text
  (second alternative).
\<close>

function sentenceMatches :: "string \<Rightarrow> string list" where
  "sentenceMatches s =
     (case dropWhile isTerminator s of
        [] \<Rightarrow> []
      | c # cs \<Rightarrow>
          (let body = takeWhile (\<lambda>x. \<not> isTerminator x) (c # cs);
               after = dropWhile (\<lambda>x. \<not> isTerminator x) (c # cs);
               marks = takeWhile isTerminator after
           in (body @ marks) # sentenceMatches (dropWhile isTerminator after)))"
  by pat_completeness auto

termination
proof (relation "measure length", goal_cases)
  case 1
  show ?case by simp
next
  case (2 s c cs body after marks)
  have hd_ok: "\<not> isTerminator c"
    using 2(1) hd_dropWhile [of isTerminator s] by fastforce
  have a: "length (dropWhile isTerminator after) \<le> length after"
    by (rule length_dropWhile_le)
  have "after = dropWhile (\<lambda>x. \<not> isTerminator x) cs"
    using 2(3) hd_ok by simp
  then have b: "length after \<le> length cs"
    by (simp add: length_dropWhile_le)
  have c: "length cs < length (dropWhile isTerminator s)"
    using 2(1) by simp
  have d: "length (dropWhile isTerminator s) \<le> length s"
    by (rule length_dropWhile_le)
  show ?case using a b c d by simp
qed

declare sentenceMatches.simps [simp del]

definition splitIntoSentences :: "string \<Rightarrow> string list" where
  "splitIntoSentences text = filter (\<lambda>s. length s > 0) (map trim (sentenceMatches text))"

subsection \<open>chunkText\<close>

text \<open>The object literal pushed onto \<open>chunks\<close>, at both places of the loop.\<close>

definition makeChunk :: "string \<Rightarrow> nat \<Rightarrow> int \<Rightarrow> nat \<Rightarrow> Position \<Rightarrow> Chunk" where
  "makeChunk chunkContent tokenCount pno idx pos =
     \<lparr>content = chunkContent,
      token_count = tokenCount,
      page_no = pno,
      chunk_index = idx,
      meta = \<lparr>meta_page_no = pno, meta_chunk_index = idx, position = pos,
               has_overlap = (idx > 0)\<rparr>\<rparr>"

text \<open>
  The backward loop over \<open>currentChunk\<close>: the first argument holds
  \<open>currentChunk[j], currentChunk[j-1], ..., currentChunk[0]\<close>; each round
  unshifts one sentence and adds its tokens while
  \<open>overlapTokens < overlapTokenTarget\<close>.
\<close>

fun overlapLoop :: "string list \<Rightarrow> int \<Rightarrow> string list \<Rightarrow> nat \<Rightarrow> string list \<times> nat" where
  "overlapLoop [] overlapTokenTarget overlapSentences overlapTokens =
     (overlapSentences, overlapTokens)"
| "overlapLoop (overlapSentence # earlier) overlapTokenTarget overlapSentences overlapTokens =
     (if int overlapTokens < overlapTokenTarget
      then overlapLoop earlier overlapTokenTarget (overlapSentence # overlapSentences)
             (overlapTokens + countTokens overlapSentence)
      else (overlapSentences, overlapTokens))"

text \<open>
  Double arithmetic. A JavaScript number is an IEEE 754 double, and \<open>/\<close> and
  \<open>*\<close> return the double nearest to the exact quotient and product, ties going
  to the even mantissa. \<open>pow2 e\<close> is \<open>2^e\<close>; \<open>binaryExponent x\<close> is the \<open>e\<close> with
  \<open>2^e \<le> |x| < 2^(e+1)\<close>, for \<open>x\<close> other than 0 (\<open>bitlen n\<close> is the number of
  binary digits of \<open>n\<close>); the doubles around \<open>x\<close> are the multiples of
  \<open>2^(e-52)\<close>, or of \<open>2^(-1074)\<close> in the subnormal range. A result beyond the
  largest double, which the source turns into an infinity, stays finite here: it is
  above (or below) every token sum either way.
\<close>

definition pow2 :: "int \<Rightarrow> rat" where
  "pow2 e = (if 0 \<le> e then 2 ^ nat e else 1 / 2 ^ nat (- e))"

definition binaryExponent :: "rat \<Rightarrow> int" where
  "binaryExponent x =
     (if 1 \<le> \<bar>x\<bar> then bitlen \<lfloor>\<bar>x\<bar>\<rfloor> - 1 else - bitlen (\<lceil>1 / \<bar>x\<bar>\<rceil> - 1))"

definition roundHalfEven :: "rat \<Rightarrow> int" where
  "roundHalfEven x =
     (let f = \<lfloor>x\<rfloor>; d = x - of_int f
      in if d < 1 / 2 then f else if 1 / 2 < d then f + 1 else if even f then f else f + 1)"

definition roundDouble :: "rat \<Rightarrow> rat" where
  "roundDouble x =
     (if x = 0 then 0
      else (let ulp = pow2 (max (binaryExponent x - 52) (- 1074))
            in of_int (roundHalfEven (x / ulp)) * ulp))"

text \<open>
  \<open>Math.floor(tokenCount * (opts.overlapPercentage / 100))\<close>: the division rounds
  to a double, the product rounds to a double, and the floor is taken of that.
\<close>

definition overlapTokenTarget :: "RequiredChunkOptions \<Rightarrow> nat \<Rightarrow> int" where
  "overlapTokenTarget opts tokenCount =
     \<lfloor>roundDouble (of_nat tokenCount * roundDouble (req_overlapPercentage opts / 100))\<rfloor>"

record LoopState =
  chunks :: "Chunk list"
  currentChunk :: "string list"
  currentTokens :: nat
  chunkIndex :: nat

text \<open>The branch that saves the current chunk and seeds the next one with the overlap.\<close>

definition saveChunk :: "RequiredChunkOptions \<Rightarrow> int \<Rightarrow> LoopState \<Rightarrow> LoopState" where
  "saveChunk opts pno st =
     (let chunkContent = join (currentChunk st);
          tokenCount = countTokens chunkContent;
          saved = makeChunk chunkContent tokenCount pno (chunkIndex st)
                    (if chunkIndex st = 0 then Start else Middle);
          seed = overlapLoop (rev (currentChunk st)) (overlapTokenTarget opts tokenCount) [] 0
      in \<lparr>chunks = chunks st @ [saved],
          currentChunk = fst seed,
          currentTokens = snd seed,
          chunkIndex = chunkIndex st + 1\<rparr>)"

text \<open>One round of the loop over the sentences; \<open>isLast\<close> is \<open>i === sentences.length - 1\<close>.\<close>

definition processSentence ::
  "RequiredChunkOptions \<Rightarrow> int \<Rightarrow> bool \<Rightarrow> string \<Rightarrow> LoopState \<Rightarrow> LoopState" where
  "processSentence opts pno isLast sentence st =
     (let sentenceTokens = countTokens sentence;
          st1 = (if of_nat (currentTokens st + sentenceTokens) > req_maxTokens opts
                    \<and> length (currentChunk st) > 0
                 then saveChunk opts pno st else st);
          st2 = st1\<lparr>currentChunk := currentChunk st1 @ [sentence],
                    currentTokens := currentTokens st1 + sentenceTokens\<rparr>
      in if isLast \<and> length (currentChunk st2) > 0
         then (let chunkContent = join (currentChunk st2);
                   tokenCount = countTokens chunkContent
               in st2\<lparr>chunks := chunks st2 @
                         [makeChunk chunkContent tokenCount pno (chunkIndex st2) End]\<rparr>)
         else st2)"

fun chunkLoop :: "RequiredChunkOptions \<Rightarrow> int \<Rightarrow> string list \<Rightarrow> LoopState \<Rightarrow> LoopState" where
  "chunkLoop opts pno [] st = st"
| "chunkLoop opts pno (sentence # rest) st =
     chunkLoop opts pno rest (processSentence opts pno (rest = []) sentence st)"

definition initialState :: LoopState where
  "initialState = \<lparr>chunks = [], currentChunk = [], currentTokens = 0, chunkIndex = 0\<rparr>"

definition chunkText :: "string \<Rightarrow> int \<Rightarrow> ChunkOptions \<Rightarrow> Chunk list" where
  "chunkText text pno options =
     (let opts = mergeOptions options;
          sentences = splitIntoSentences text
      in if length sentences = 0 then []
         else chunks (chunkLoop opts pno sentences initialState))"



subsection \<open>chunkPages\<close>

text \<open>The inner loop: every chunk of the page is pushed with the global index.\<close>

fun pushGlobal :: "Chunk list \<Rightarrow> Chunk list \<times> nat \<Rightarrow> Chunk list \<times> nat" where
  "pushGlobal [] (allChunks, globalChunkIndex) = (allChunks, globalChunkIndex)"
| "pushGlobal (chunk # pageChunks) (allChunks, globalChunkIndex) =
     pushGlobal pageChunks
       (allChunks @ [chunk\<lparr>chunk_index := globalChunkIndex,
                           meta := (meta chunk)\<lparr>meta_chunk_index := globalChunkIndex\<rparr>\<rparr>],
        globalChunkIndex + 1)"

fun pagesLoop :: "Page list \<Rightarrow> ChunkOptions \<Rightarrow> Chunk list \<times> nat \<Rightarrow> Chunk list \<times> nat" where
  "pagesLoop [] options acc = acc"
| "pagesLoop (page # pages) options acc =
     pagesLoop pages options
       (pushGlobal (chunkText (pageText page) (pageNo page) options) acc)"

definition chunkPages :: "Page list \<Rightarrow> ChunkOptions \<Rightarrow> Chunk list" where
  "chunkPages pages options = fst (pagesLoop pages options ([], 0))"

section \<open>Fuzzy search (src/lib/fuzzySearch.ts)\<close>

subsection \<open>String operations\<close>

text \<open>
  \<open>String.prototype.toLowerCase\<close> on the code units U+0000..U+00FF: the letters
  A..Z and the Latin-1 capitals U+00C0..U+00DE (without the multiplication sign U+00D7)
  move up by 32; the length of the string does not change.
\<close>

definition toLowerChar :: "char \<Rightarrow> char" where
  "toLowerChar c =
     (let n = (of_char c :: nat)
      in if (65 \<le> n \<and> n \<le> 90) \<or> (192 \<le> n \<and> n \<le> 222 \<and> n \<noteq> 215)
         then char_of (n + 32) else c)"

definition toLowerCase :: "string \<Rightarrow> string" where
  "toLowerCase s = map toLowerChar s"

text \<open>The class \<open>\w\<close>: \<open>[A-Za-z0-9_]\<close>.\<close>

definition isWordChar :: "char \<Rightarrow> bool" where
  "isWordChar c =
     (let n = (of_char c :: nat)
      in (65 \<le> n \<and> n \<le> 90) \<or> (97 \<le> n \<and> n \<le> 122) \<or> (48 \<le> n \<and> n \<le> 57) \<or> n = 95)"

text \<open>
  \<open>s.split(/\s+/)\<close>: the pieces between the maximal runs of whitespace; a run at
  the start or at the end leaves an empty piece there, and the empty string gives
  one empty piece.
\<close>

function splitWhitespace :: "string \<Rightarrow> string list" where
  "splitWhitespace s =
     (let piece = takeWhile (\<lambda>c. \<not> isSpace c) s;
          rest = dropWhile (\<lambda>c. \<not> isSpace c) s
      in if rest = [] then [piece]
         else piece # splitWhitespace (dropWhile isSpace rest))"
  by pat_completeness auto

termination
proof (relation "measure length", goal_cases)
  case 1
  show ?case by simp
next
  case (2 s piece rest)
  obtain c cs where rest: "rest = c # cs"
    using 2(3) by (cases rest) auto
  have "isSpace c"
    using hd_dropWhile [of "\<lambda>c. \<not> isSpace c" s] 2(2) rest by fastforce
  then have a: "length (dropWhile isSpace rest) \<le> length cs"
    using rest by (simp add: length_dropWhile_le)
  have b: "length rest \<le> length s"
    using 2(2) by (simp add: length_dropWhile_le)
  show ?case using a b rest by simp
qed

declare splitWhitespace.simps [simp del]

text \<open>\<open>s.replace(/\s+/g, ' ')\<close>: every maximal run of whitespace becomes one space.\<close>

function collapseWhitespace :: "string \<Rightarrow> string" where
  "collapseWhitespace [] = []"
| "collapseWhitespace (c # cs) =
     (if isSpace c then CHR '' '' # collapseWhitespace (dropWhile isSpace cs)
      else c # collapseWhitespace cs)"
  by pat_completeness auto

termination
  by (relation "measure length") (auto simp: le_imp_less_Suc length_dropWhile_le)

text \<open>\<open>haystack.includes(needle)\<close>.\<close>

fun stringIncludes :: "string \<Rightarrow> string \<Rightarrow> bool" where
  "stringIncludes [] needle = (needle = [])"
| "stringIncludes (c # cs) needle = (prefix needle (c # cs) \<or> stringIncludes cs needle)"

subsection \<open>levenshteinDistance and calculateSimilarity\<close>

text \<open>
  The matrix has \<open>str2.length + 1\<close> rows of \<open>str1.length + 1\<close> cells. The source
  fills it with \<open>null\<close> first; every cell is written before it is read, so the
  model starts from 0. The three loops of the source are the three folds.
\<close>

definition setCell :: "nat list list \<Rightarrow> nat \<Rightarrow> nat \<Rightarrow> nat \<Rightarrow> nat list list" where
  "setCell matrix j i v = matrix[j := (matrix ! j)[i := v]]"

definition levenshteinCell :: "string \<Rightarrow> string \<Rightarrow> nat \<Rightarrow> nat \<Rightarrow> nat list list \<Rightarrow> nat list list" where
  "levenshteinCell str1 str2 j i matrix =
     (let cost = (if str1 ! (i - 1) = str2 ! (j - 1) then 0 else 1)
      in setCell matrix j i
           (min (min (matrix ! j ! (i - 1) + 1)
                     (matrix ! (j - 1) ! i + 1))
                (matrix ! (j - 1) ! (i - 1) + cost)))"

definition levenshteinDistance :: "string \<Rightarrow> string \<Rightarrow> nat" where
  "levenshteinDistance str1 str2 =
     (let matrix0 = replicate (length str2 + 1) (replicate (length str1 + 1) 0);
          matrix1 = fold (\<lambda>i matrix. setCell matrix 0 i i) [0..<length str1 + 1] matrix0;
          matrix2 = fold (\<lambda>j matrix. setCell matrix j 0 j) [0..<length str2 + 1] matrix1;
          matrix3 = fold (\<lambda>j matrix. fold (levenshteinCell str1 str2 j) [1..<length str1 + 1] matrix)
                      [1..<length str2 + 1] matrix2
      in matrix3 ! length str2 ! length str1)"

definition calculateSimilarity :: "string \<Rightarrow> string \<Rightarrow> rat" where
  "calculateSimilarity str1 str2 =
     (let distance = levenshteinDistance (toLowerCase str1) (toLowerCase str2);
          maxLength = max (length str1) (length str2)
      in if maxLength = 0 then 1
         else (of_nat maxLength - of_nat distance) / of_nat maxLength)"

subsection \<open>generateQueryVariations and preprocessQuery\<close>

text \<open>\<open>Set.prototype.add\<close>; a \<open>Set\<close> keeps its members in insertion order.\<close>

definition setAdd :: "string \<Rightarrow> string list \<Rightarrow> string list" where
  "setAdd x variations = (if x \<in> set variations then variations else variations @ [x])"

text \<open>
  \<open>word.replace(/(ing|ed|er|est|ly|s)$/, '')\<close>. The six suffixes end in six
  different letters, so at most one of them ends the word.
\<close>

definition stripSuffix :: "string \<Rightarrow> string" where
  "stripSuffix word =
     (case filter (\<lambda>suf. suffix suf word) [''ing'', ''ed'', ''er'', ''est'', ''ly'', ''s''] of
        [] \<Rightarrow> word
      | suf # _ \<Rightarrow> take (length word - length suf) word)"

definition addStemmed :: "string \<Rightarrow> string list \<Rightarrow> string list" where
  "addStemmed word variations =
     (if length word > 3
      then (let stemmed = stripSuffix word
            in if length stemmed > 2 then setAdd stemmed variations else variations)
      else variations)"

text \<open>
  \<open>word.slice(0, -1)\<close> is \<open>butlast word\<close>; \<open>word.slice(0, -2) + word.slice(-1)\<close>
  drops the second to last character.
\<close>

definition addPartial :: "string \<Rightarrow> string list \<Rightarrow> string list" where
  "addPartial word variations =
     (if length word > 4
      then (let variations1 = setAdd (butlast word) variations
            in if length word > 5
               then setAdd (take (length word - 2) word @ drop (length word - 1) word) variations1
               else variations1)
      else variations)"

definition generateQueryVariations :: "string \<Rightarrow> string list" where
  "generateQueryVariations query =
     (let words = filter (\<lambda>w. length w > 0) (splitWhitespace (toLowerCase query));
          variations0 = setAdd (toLowerCase query) [];
          variations1 = fold setAdd words variations0;
          variations2 = fold addStemmed words variations1;
          variations3 = fold addPartial words variations2
      in variations3)"

record PreprocessedQuery =
  original :: string
  processed :: string
  variations :: "string list"
  queryKeywords :: "string list"

definition preprocessQuery :: "string \<Rightarrow> PreprocessedQuery" where
  "preprocessQuery query =
     (let original = trim query;
          processed =
            trim (collapseWhitespace
                    (map (\<lambda>c. if isWordChar c \<or> isSpace c then c else CHR '' '')
                       (toLowerCase original)))
      in \<lparr>original = original,
          processed = processed,
          variations = generateQueryVariations processed,
          queryKeywords = filter (\<lambda>w. length w > 0) (splitWhitespace processed)\<rparr>)"

subsection \<open>calculateSearchScore\<close>

datatype MatchType = Exact | Fuzzy | Partial | Trigram

text \<open>
  The entries of \<open>highlights\<close>. The source pushes the strings \<open>exact\<close>,
  \<open>exact-words\<close>, \<open>fuzzy-\<close> followed by \<open>similarity.toFixed(2)\<close>, and
  \<open>partial\<close>; the fuzzy tag is kept with its similarity, unformatted.
\<close>

datatype Highlight = HExact | HExactWords | HFuzzy rat | HPartial

record SearchOptions =
  threshold :: "rat option"
  maxResults :: "nat option"
  includePartial :: "bool option"
  boostExact :: "bool option"

record ScoreState =
  st_score :: rat
  st_matchType :: MatchType
  st_highlights :: "Highlight list"

record ScoreResult =
  res_score :: rat
  res_matchType :: MatchType
  res_highlights :: "Highlight list"

text \<open>
  \<open>new RegExp(`\\b${word}\\b`).test(contentLower)\<close> for a non-empty word made of
  word characters only, which is what the words of a preprocessed query are: the
  pattern is then the literal word between two word boundaries. The flag tells whether
  the character before the current position is a word character.
\<close>

fun wordBoundarySearch :: "string \<Rightarrow> bool \<Rightarrow> string \<Rightarrow> bool" where
  "wordBoundarySearch word afterWordChar [] = False"
| "wordBoundarySearch word afterWordChar (c # cs) =
     ((\<not> afterWordChar \<and> prefix word (c # cs) \<and>
        (case drop (length word) (c # cs) of [] \<Rightarrow> True | d # _ \<Rightarrow> \<not> isWordChar d))
      \<or> wordBoundarySearch word (isWordChar c) cs)"

definition wordBoundaryTest :: "string \<Rightarrow> string \<Rightarrow> bool" where
  "wordBoundaryTest word contentLower = wordBoundarySearch word False contentLower"

text \<open>
  The body of the inner \<open>forEach\<close> of the fuzzy matches. (Below, a parameter whose
  name is also the name of a record field carries a prime.)
\<close>

definition fuzzyStep :: "string \<Rightarrow> string \<Rightarrow> ScoreState \<Rightarrow> ScoreState" where
  "fuzzyStep variation word st =
     (if length word > 2
      then (let similarity = calculateSimilarity word variation
            in if similarity > 7 / 10
               then \<lparr>st_score = st_score st + similarity * 30,
                     st_matchType = (if st_matchType st = Trigram then Fuzzy else st_matchType st),
                     st_highlights = st_highlights st @ [HFuzzy similarity]\<rparr>
               else st)
      else st)"

text \<open>The body of the \<open>forEach\<close> of the partial matches.\<close>

definition partialStep :: "string \<Rightarrow> string \<Rightarrow> ScoreState \<Rightarrow> ScoreState" where
  "partialStep contentLower variation st =
     (if stringIncludes contentLower variation
      then \<lparr>st_score = st_score st + 20,
            st_matchType = (if st_matchType st = Trigram then Partial else st_matchType st),
            st_highlights = st_highlights st @ [HPartial]\<rparr>
      else st)"

definition calculateSearchScore ::
  "string \<Rightarrow> string \<Rightarrow> string list \<Rightarrow> SearchOptions \<Rightarrow> ScoreResult" where
  "calculateSearchScore content' query variations' options =
     (let boost = (case boostExact options of None \<Rightarrow> True | Some b \<Rightarrow> b);
          contentLower = toLowerCase content';
          queryLower = toLowerCase query;
          st0 = \<lparr>st_score = 0, st_matchType = Trigram, st_highlights = []\<rparr>;
          st1 = (if stringIncludes contentLower queryLower
                 then \<lparr>st_score = st_score st0 + 100, st_matchType = Exact,
                       st_highlights = st_highlights st0 @ [HExact]\<rparr>
                 else st0);
          exactWordMatches =
            filter (\<lambda>word. length word > 0 \<and> wordBoundaryTest word contentLower)
              (splitWhitespace queryLower);
          st2 = (if length exactWordMatches > 0
                 then \<lparr>st_score = st_score st1 + of_nat (length exactWordMatches) * 50,
                       st_matchType = Exact,
                       st_highlights = st_highlights st1 @ [HExactWords]\<rparr>
                 else st1);
          words = splitWhitespace contentLower;
          st3 = fold (\<lambda>variation st. fold (fuzzyStep variation) words st) variations' st2;
          st4 = fold (partialStep contentLower) variations' st3;
          score = (if boost \<and> st_matchType st4 = Exact then st_score st4 * (3 / 2)
                   else st_score st4);
          normalizedScore = min 100 (max 0 score)
      in \<lparr>res_score = normalizedScore,
          res_matchType = st_matchType st4,
          res_highlights = st_highlights st4\<rparr>)"

subsection \<open>sortSearchResults and filterSearchResults\<close>

text \<open>A row of \<open>doc_chunks\<close>, with the columns that the search reads.\<close>

record DocChunk =
  row_id :: string
  row_chunk_index :: nat
  row_content :: string

record SearchResult =
  chunk :: DocChunk
  score :: rat
  highlights :: "Highlight list"
  matchType :: MatchType

fun typePriority :: "MatchType \<Rightarrow> int" where
  "typePriority Exact = 4"
| "typePriority Fuzzy = 3"
| "typePriority Partial = 2"
| "typePriority Trigram = 1"

text \<open>The comparator handed to \<open>Array.prototype.sort\<close>.\<close>

definition compareResults :: "SearchResult \<Rightarrow> SearchResult \<Rightarrow> rat" where
  "compareResults a b =
     (let typeDiff = typePriority (matchType b) - typePriority (matchType a)
      in if typeDiff \<noteq> 0 then of_int typeDiff else score b - score a)"

text \<open>
  \<open>Array.prototype.sort\<close> is a stable sort: with a comparator that is a total
  preorder, as this one is, the result is the one list that is ordered by the
  comparator and keeps equal elements in their input order. Insertion from the right
  computes that list: an element is put in front of the first element it does not
  have to follow.
\<close>

fun insertResult :: "SearchResult \<Rightarrow> SearchResult list \<Rightarrow> SearchResult list" where
  "insertResult a [] = [a]"
| "insertResult a (b # bs) =
     (if compareResults a b \<le> 0 then a # b # bs else b # insertResult a bs)"

definition sortSearchResults :: "SearchResult list \<Rightarrow> SearchResult list" where
  "sortSearchResults results = foldr insertResult results []"

text \<open>
  A JavaScript number as \<open>parseFloat\<close> can return it. \<open>x >= y\<close> is false when
  \<open>y\<close> is \<open>NaN\<close>.
\<close>

datatype JsNumber = NaN | NegInfinity | Finite rat | PosInfinity

fun greaterEq :: "rat \<Rightarrow> JsNumber \<Rightarrow> bool" where
  "greaterEq x NaN = False"
| "greaterEq x NegInfinity = True"
| "greaterEq x (Finite y) = (x \<ge> y)"
| "greaterEq x PosInfinity = False"

definition filterSearchResults :: "SearchResult list \<Rightarrow> JsNumber \<Rightarrow> SearchResult list" where
  "filterSearchResults results threshold' =
     filter (\<lambda>result. greaterEq (score result) threshold') results"

section \<open>Search route (GET /api/search)\<close>

datatype HttpError = BadRequest | InternalServerError

text \<open>
  An entry of \<open>results\<close> in the response. The field \<open>highlighted\<close> (the content with
  \<open>mark\<close> elements, built by \<open>smartHighlight\<close>) is left out.
\<close>

record HighlightedResult =
  hr_chunk :: DocChunk
  searchScore :: rat
  hr_matchType :: MatchType
  hr_highlights :: "Highlight list"

record SearchResponse =
  results :: "HighlightedResult list"
  count :: nat
  totalFound :: "nat option"
  responseQuery :: PreprocessedQuery

text \<open>
  The \<open>Map\<close> keyed by \<open>chunk.id\<close>: a chunk is stored when its id is new, and
  \<open>allChunks.values()\<close> lists the chunks in insertion order.
\<close>

definition addChunk :: "DocChunk \<Rightarrow> DocChunk list \<Rightarrow> DocChunk list" where
  "addChunk c allChunks =
     (if row_id c \<in> set (map row_id allChunks) then allChunks else allChunks @ [c])"

text \<open>
  One settled promise: \<open>Some data\<close> when it is fulfilled with data, \<open>None\<close> when
  it is rejected or has no data.
\<close>

definition combineResults :: "DocChunk list option list \<Rightarrow> DocChunk list" where
  "combineResults searchResults =
     fold (\<lambda>result allChunks.
             case result of None \<Rightarrow> allChunks | Some rows \<Rightarrow> fold addChunk rows allChunks)
       searchResults []"

text \<open>The callback of \<open>chunks.map\<close>: the score of one candidate chunk.\<close>

definition scoreChunk :: "PreprocessedQuery \<Rightarrow> DocChunk \<Rightarrow> SearchResult" where
  "scoreChunk pq c =
     (let r = calculateSearchScore (row_content c) (processed pq) (variations pq)
                \<lparr>threshold = None, maxResults = None, includePartial = None,
                 boostExact = Some True\<rparr>
      in \<lparr>chunk = c, score = res_score r, highlights = res_highlights r,
          matchType = res_matchType r\<rparr>)"

text \<open>The callback of \<open>filteredResults.map\<close>.\<close>

definition highlightResult :: "SearchResult \<Rightarrow> HighlightedResult" where
  "highlightResult result =
     \<lparr>hr_chunk = chunk result, searchScore = score result,
      hr_matchType = matchType result, hr_highlights = highlights result\<rparr>"

text \<open>
  The handler after the database has answered: \<open>query\<close> is the parameter \<open>q\<close>
  (\<open>None\<close> when it is absent), the threshold is the parsed parameter, and
  \<open>searchResults\<close> is what \<open>Promise.allSettled\<close> returned for the strategies. The
  response repeats the query as it was received.
\<close>

definition searchRoute ::
  "string option \<Rightarrow> JsNumber \<Rightarrow> DocChunk list option list \<Rightarrow> HttpError + SearchResponse" where
  "searchRoute query threshold' searchResults =
     (case query of
        None \<Rightarrow> Inl BadRequest
      | Some q \<Rightarrow>
          if q = [] then Inl BadRequest
          else
            (let pq = preprocessQuery q;
                 chunks = combineResults searchResults
             in if length chunks = 0
                then Inr \<lparr>results = [], count = 0, totalFound = None,
                          responseQuery = pq\<lparr>original := q\<rparr>\<rparr>
                else
                  (let searchResultsWithScores = map (scoreChunk pq) chunks;
                       sortedResults = sortSearchResults searchResultsWithScores;
                       filteredResults = filterSearchResults sortedResults threshold';
                       highlightedResults = map highlightResult filteredResults
                   in Inr \<lparr>results = highlightedResults,
                            count = length highlightedResults,
                            totalFound = Some (length chunks),
                            responseQuery = pq\<lparr>original := q\<rparr>\<rparr>)))"

text \<open>
  The handler with the database. \<open>strategyRows\<close> holds, for each search strategy in
  the order of \<open>searchStrategies\<close> (the full-text search, the substring search, then
  one substring search for each keyword longer than two characters), the rows that the
  strategy matches, or \<open>None\<close> when it fails. \<open>strategy.limit(maxResults)\<close> makes the
  database return at most \<open>maxResults\<close> of them, here the first ones; \<open>maxResults\<close>
  has no other use in the selection of the results.
\<close>

definition limitRows :: "nat \<Rightarrow> DocChunk list option \<Rightarrow> DocChunk list option" where
  "limitRows maxResults' rows = map_option (take maxResults') rows"

definition searchGET ::
  "string option \<Rightarrow> JsNumber \<Rightarrow> nat \<Rightarrow> DocChunk list option list \<Rightarrow> HttpError + SearchResponse" where
  "searchGET query threshold' maxResults' strategyRows =
     searchRoute query threshold' (map (limitRows maxResults') strategyRows)"

section \<open>Reference definitions and invariants\<close>

text \<open>
  The positions as the specification words them: over a sequence of \<open>n\<close> chunks the
  last chunk has position \<open>end\<close> (also when it is the only one), the chunk with
  index 0 has position \<open>start\<close>, and every other chunk has position \<open>middle\<close>.
\<close>

definition claimedPositions :: "nat \<Rightarrow> Position list" where
  "claimedPositions n =
     map (\<lambda>i. if i = n - 1 then End else if i = 0 then Start else Middle) [0..<n]"





text \<open>
  The key that \<open>compareResults\<close> orders by: the priority of the match type, then the
  score.
\<close>

definition sortKey :: "SearchResult \<Rightarrow> int \<times> rat" where
  "sortKey r = (typePriority (matchType r), score r)"

text \<open>
  The order that the ranking is to produce: a result may stand before another when its
  match type has the higher priority, or the same priority and a score that is not
  lower.
\<close>

definition rankedBefore :: "SearchResult \<Rightarrow> SearchResult \<Rightarrow> bool" where
  "rankedBefore a b \<longleftrightarrow>
     typePriority (matchType a) > typePriority (matchType b) \<or>
     (typePriority (matchType a) = typePriority (matchType b) \<and> score a \<ge> score b)"

text \<open>
  The classic edit distance by its recurrence: \<open>editDistance a b i j\<close> is the distance
  between the first \<open>i\<close> characters of \<open>a\<close> and the first \<open>j\<close> characters of
  \<open>b\<close>, with unit cost for a deletion, an insertion and a substitution.
\<close>

fun editDistance :: "string \<Rightarrow> string \<Rightarrow> nat \<Rightarrow> nat \<Rightarrow> nat" where
  "editDistance a b 0 j = j"
| "editDistance a b (Suc i) 0 = Suc i"
| "editDistance a b (Suc i) (Suc j) =
     min (min (editDistance a b i (Suc j) + 1) (editDistance a b (Suc i) j + 1))
         (editDistance a b i j + (if a ! i = b ! j then 0 else 1))"

text \<open>
  The edit distance by edit scripts: \<open>edits a b n\<close> holds when \<open>n\<close> single-character
  deletions, insertions and substitutions, with the remaining characters kept, turn
  \<open>a\<close> into \<open>b\<close>.
\<close>

inductive edits :: "string \<Rightarrow> string \<Rightarrow> nat \<Rightarrow> bool" where
  finish: "edits [] [] 0"
| delete: "edits xs ys n \<Longrightarrow> edits (x # xs) ys (Suc n)"
| insert: "edits xs ys n \<Longrightarrow> edits xs (y # ys) (Suc n)"
| keep: "edits xs ys n \<Longrightarrow> edits (x # xs) (x # ys) n"
| substitute: "edits xs ys n \<Longrightarrow> edits (x # xs) (y # ys) (Suc n)"

text \<open>
  Invariants of the matrix of \<open>levenshteinDistance\<close>: its shape, and the cells that
  hold the edit distance when the loops have reached row \<open>j\<close> and column \<open>i\<close>.
\<close>

definition shaped :: "nat \<Rightarrow> nat \<Rightarrow> nat list list \<Rightarrow> bool" where
  "shaped n1 n2 m \<longleftrightarrow> length m = n2 + 1 \<and> (\<forall>j \<le> n2. length (m ! j) = n1 + 1)"

definition filled :: "string \<Rightarrow> string \<Rightarrow> nat \<Rightarrow> nat \<Rightarrow> nat list list \<Rightarrow> bool" where
  "filled a b j i m \<longleftrightarrow>
     shaped (length a) (length b) m \<and>
     (\<forall>j' i'. j' \<le> length b \<and> i' \<le> length a \<and> (j' = 0 \<or> i' = 0 \<or> j' < j \<or> (j' = j \<and> i' < i))
        \<longrightarrow> m ! j' ! i' = editDistance a b i' j')"



text \<open>
  Invariants of the loop of \<open>chunkText\<close>. A chunk is well formed at the local index
  \<open>i\<close> with position \<open>pos\<close>; the chunks saved so far are well formed with positions
  \<open>start\<close> and \<open>middle\<close>; a page's chunks are those followed by one \<open>end\<close> chunk.
\<close>

definition localChunk :: "nat \<Rightarrow> Position \<Rightarrow> Chunk \<Rightarrow> bool" where
  "localChunk i pos c \<longleftrightarrow>
     chunk_index c = i \<and> meta_chunk_index (meta c) = i \<and> position (meta c) = pos \<and>
     has_overlap (meta c) = (0 < i) \<and> content c \<noteq> [] \<and> 1 \<le> token_count c"

definition savedOk :: "Chunk list \<Rightarrow> bool" where
  "savedOk cs \<longleftrightarrow> (\<forall>i<length cs. localChunk i (if i = 0 then Start else Middle) (cs ! i))"

definition pageOk :: "Chunk list \<Rightarrow> bool" where
  "pageOk cs \<longleftrightarrow> cs = [] \<or> (savedOk (butlast cs) \<and> localChunk (length cs - 1) End (last cs))"

definition loopInv :: "LoopState \<Rightarrow> bool" where
  "loopInv st \<longleftrightarrow>
     chunkIndex st = length (chunks st) \<and> savedOk (chunks st) \<and> (\<forall>s\<in>set (currentChunk st). s \<noteq> [])"

section \<open>Properties of the chunker\<close>

subsection \<open>The loop of chunkText\<close>

lemma countTokens_pos: "s \<noteq> [] \<Longrightarrow> 1 \<le> countTokens s"
  by (cases s) (simp_all add: countTokens_def CHARS_PER_TOKEN_def)

lemma join_nonempty: "xs \<noteq> [] \<Longrightarrow> \<forall>s\<in>set xs. s \<noteq> [] \<Longrightarrow> join xs \<noteq> []"
  by (induction xs rule: join.induct) auto

lemma overlapLoop_set: "set (fst (overlapLoop xs t acc n)) \<subseteq> set xs \<union> set acc"
proof (induction xs arbitrary: acc n)
  case Nil
  show ?case by simp
next
  case (Cons x xs)
  show ?case
    using Cons [of "x # acc" "n + countTokens x"] by auto
qed

lemma makeChunk_local:
  "xs \<noteq> [] \<Longrightarrow> \<forall>s\<in>set xs. s \<noteq> [] \<Longrightarrow>
   localChunk i pos (makeChunk (join xs) (countTokens (join xs)) pno i pos)"
  using join_nonempty [of xs] countTokens_pos [of "join xs"]
  by (simp add: localChunk_def makeChunk_def)

lemma savedOk_snoc:
  "savedOk cs \<Longrightarrow> localChunk (length cs) (if length cs = 0 then Start else Middle) c \<Longrightarrow>
   savedOk (cs @ [c])"
  by (auto simp: savedOk_def nth_append less_Suc_eq)

lemma saveChunk_inv:
  assumes "loopInv st" "currentChunk st \<noteq> []"
  shows "loopInv (saveChunk opts pno st)"
proof -
  have ne: "\<forall>s\<in>set (currentChunk st). s \<noteq> []"
    using assms(1) by (simp add: loopInv_def)
  have idx: "chunkIndex st = length (chunks st)"
    using assms(1) by (simp add: loopInv_def)
  have "localChunk (length (chunks st)) (if length (chunks st) = 0 then Start else Middle)
          (makeChunk (join (currentChunk st)) (countTokens (join (currentChunk st))) pno
             (length (chunks st)) (if length (chunks st) = 0 then Start else Middle))"
    using assms(2) ne by (rule makeChunk_local)
  then have 1: "savedOk (chunks (saveChunk opts pno st))"
    using assms(1) by (simp add: saveChunk_def Let_def idx loopInv_def savedOk_snoc)
  have 2: "chunkIndex (saveChunk opts pno st) = length (chunks (saveChunk opts pno st))"
    by (simp add: saveChunk_def Let_def idx)
  have 3: "\<forall>s\<in>set (currentChunk (saveChunk opts pno st)). s \<noteq> []"
    using ne overlapLoop_set [of "rev (currentChunk st)" _ "[]" 0]
    by (auto simp: saveChunk_def Let_def)
  show ?thesis using 1 2 3 by (simp add: loopInv_def)
qed

lemma processSentence_notLast_inv:
  assumes "loopInv st" "sentence \<noteq> []"
  shows "loopInv (processSentence opts pno False sentence st)"
proof (cases "of_nat (currentTokens st + countTokens sentence) > req_maxTokens opts
               \<and> length (currentChunk st) > 0")
  case True
  then have "loopInv (saveChunk opts pno st)"
    using assms(1) saveChunk_inv by simp
  then show ?thesis
    using True assms(2) by (simp add: processSentence_def Let_def loopInv_def)
next
  case False
  then show ?thesis
    using assms by (auto simp add: processSentence_def Let_def loopInv_def)
qed

lemma processSentence_last:
  assumes "loopInv st" "sentence \<noteq> []"
  shows "\<exists>st1. loopInv st1 \<and> currentChunk st1 \<noteq> [] \<and>
           chunks (processSentence opts pno True sentence st) =
             chunks st1 @ [makeChunk (join (currentChunk st1)) (countTokens (join (currentChunk st1)))
                             pno (length (chunks st1)) End]"
proof -
  let ?st1 = "processSentence opts pno False sentence st"
  have inv: "loopInv ?st1"
    using assms by (rule processSentence_notLast_inv)
  have ne: "currentChunk ?st1 \<noteq> []"
    by (simp add: processSentence_def Let_def)
  have "chunks (processSentence opts pno True sentence st) =
          chunks ?st1 @ [makeChunk (join (currentChunk ?st1)) (countTokens (join (currentChunk ?st1)))
                             pno (chunkIndex ?st1) End]"
    by (simp add: processSentence_def Let_def)
  moreover have "chunkIndex ?st1 = length (chunks ?st1)"
    using inv by (simp add: loopInv_def)
  ultimately show ?thesis using inv ne by metis
qed

lemma chunkLoop_pageOk:
  assumes "sentences \<noteq> []" "\<forall>s\<in>set sentences. s \<noteq> []" "loopInv st"
  shows "pageOk (chunks (chunkLoop opts pno sentences st))"
  using assms
proof (induction sentences arbitrary: st)
  case Nil
  then show ?case by simp
next
  case (Cons sentence rest)
  show ?case
  proof (cases "rest = []")
    case True
    obtain st1 where st1: "loopInv st1" "currentChunk st1 \<noteq> []"
      "chunks (processSentence opts pno True sentence st) =
         chunks st1 @ [makeChunk (join (currentChunk st1)) (countTokens (join (currentChunk st1)))
                             pno (length (chunks st1)) End]"
      using processSentence_last [of st sentence opts pno] Cons.prems by auto
    have "localChunk (length (chunks st1)) End
            (makeChunk (join (currentChunk st1)) (countTokens (join (currentChunk st1)))
                             pno (length (chunks st1)) End)"
      using st1(1,2) by (intro makeChunk_local) (auto simp: loopInv_def)
    then show ?thesis
      using True st1 by (simp add: pageOk_def loopInv_def)
  next
    case False
    have "loopInv (processSentence opts pno False sentence st)"
      using Cons.prems by (intro processSentence_notLast_inv) auto
    then show ?thesis
      using False Cons.IH Cons.prems by simp
  qed
qed

lemma loopInv_initial: "loopInv initialState"
  by (simp add: loopInv_def initialState_def savedOk_def)

lemma splitIntoSentences_nonempty: "\<forall>s\<in>set (splitIntoSentences text). s \<noteq> []"
  by (simp add: splitIntoSentences_def)

lemma chunkText_pageOk: "pageOk (chunkText text pno options)"
proof (cases "splitIntoSentences text = []")
  case True
  then show ?thesis by (simp add: chunkText_def pageOk_def)
next
  case False
  then show ?thesis
    using chunkLoop_pageOk [OF False splitIntoSentences_nonempty loopInv_initial]
    by (simp add: chunkText_def Let_def)
qed

lemma pageOk_nth:
  assumes "pageOk cs" "i < length cs"
  shows "localChunk i (if i = length cs - 1 then End else if i = 0 then Start else Middle) (cs ! i)"
proof (cases "i = length cs - 1")
  case True
  moreover have "cs \<noteq> []" using assms(2) by auto
  ultimately show ?thesis using assms by (auto simp: pageOk_def last_conv_nth)
next
  case False
  then have "i < length (butlast cs)" using assms(2) by simp
  then show ?thesis using assms False by (auto simp: pageOk_def savedOk_def nth_butlast)
qed

lemma pageOk_positions:
  assumes "pageOk cs"
  shows "map (position \<circ> meta) cs = claimedPositions (length cs)"
proof (rule nth_equalityI)
  show "length (map (position \<circ> meta) cs) = length (claimedPositions (length cs))"
    by (simp add: claimedPositions_def)
next
  fix i
  assume "i < length (map (position \<circ> meta) cs)"
  then have i: "i < length cs" by simp
  then show "map (position \<circ> meta) cs ! i = claimedPositions (length cs) ! i"
    using pageOk_nth [OF assms i] by (simp add: claimedPositions_def localChunk_def)
qed

lemma pageOk_overlap:
  assumes "pageOk cs"
  shows "map (has_overlap \<circ> meta) cs = map (\<lambda>i. 0 < i) [0..<length cs]"
proof (rule nth_equalityI)
  show "length (map (has_overlap \<circ> meta) cs) = length (map (\<lambda>i. 0 < i) [0..<length cs])"
    by simp
next
  fix i
  assume "i < length (map (has_overlap \<circ> meta) cs)"
  then have i: "i < length cs" by simp
  then show "map (has_overlap \<circ> meta) cs ! i = map (\<lambda>i. 0 < i) [0..<length cs] ! i"
    using pageOk_nth [OF assms i] by (simp add: localChunk_def)
qed

lemma pageOk_content:
  assumes "pageOk cs" "c \<in> set cs"
  shows "content c \<noteq> [] \<and> 1 \<le> token_count c"
proof -
  obtain i where "i < length cs" "cs ! i = c"
    using assms(2) by (auto simp: in_set_conv_nth)
  then show ?thesis
    using pageOk_nth [OF assms(1), of i] by (simp add: localChunk_def)
qed

subsection \<open>The loops of chunkPages\<close>

lemma pushGlobal_snd: "snd (pushGlobal cs (acc, n)) = n + length cs"
  by (induction cs arbitrary: acc n) simp_all

lemma pushGlobal_map:
  assumes "\<And>c i. f (c\<lparr>chunk_index := i, meta := (meta c)\<lparr>meta_chunk_index := i\<rparr>\<rparr>) = f c"
  shows "map f (fst (pushGlobal cs (acc, n))) = map f acc @ map f cs"
  by (induction cs arbitrary: acc n) (simp_all add: assms)

lemma pushGlobal_index:
  "map chunk_index (fst (pushGlobal cs (acc, n))) = map chunk_index acc @ [n..<n + length cs]"
proof (induction cs arbitrary: acc n)
  case Nil
  show ?case by simp
next
  case (Cons c cs)
  have up: "[n..<n + length (c # cs)] = n # [Suc n..<Suc n + length cs]"
    by (simp add: upt_conv_Cons del: upt_Suc)
  show ?case
    unfolding up using Cons [of _ "Suc n"] by (simp del: upt_Suc)
qed

lemma pushGlobal_meta_index:
  "map (meta_chunk_index \<circ> meta) (fst (pushGlobal cs (acc, n))) =
     map (meta_chunk_index \<circ> meta) acc @ [n..<n + length cs]"
proof (induction cs arbitrary: acc n)
  case Nil
  show ?case by simp
next
  case (Cons c cs)
  have up: "[n..<n + length (c # cs)] = n # [Suc n..<Suc n + length cs]"
    by (simp add: upt_conv_Cons del: upt_Suc)
  show ?case
    unfolding up using Cons [of _ "Suc n"] by (simp del: upt_Suc)
qed

lemma pagesLoop_map:
  assumes "\<And>c i. f (c\<lparr>chunk_index := i, meta := (meta c)\<lparr>meta_chunk_index := i\<rparr>\<rparr>) = f c"
  shows "map f (fst (pagesLoop pages options (acc, n))) =
           map f acc @ concat (map (\<lambda>page. map f (chunkText (pageText page) (pageNo page) options)) pages)"
proof (induction pages arbitrary: acc n)
  case Nil
  show ?case by simp
next
  case (Cons page pages)
  obtain acc' n' where step: "pushGlobal (chunkText (pageText page) (pageNo page) options) (acc, n) = (acc', n')"
    by (cases "pushGlobal (chunkText (pageText page) (pageNo page) options) (acc, n)")
  have "map f acc' = map f acc @ map f (chunkText (pageText page) (pageNo page) options)"
    using pushGlobal_map [of f "chunkText (pageText page) (pageNo page) options" acc n, OF assms] step
    by simp
  then show ?case
    using Cons [of acc' n'] step by simp
qed

lemma chunkPages_map:
  assumes "\<And>c i. f (c\<lparr>chunk_index := i, meta := (meta c)\<lparr>meta_chunk_index := i\<rparr>\<rparr>) = f c"
  shows "map f (chunkPages pages options) =
           concat (map (\<lambda>page. map f (chunkText (pageText page) (pageNo page) options)) pages)"
  using pagesLoop_map [of f pages options "[]" 0, OF assms] by (simp add: chunkPages_def)

lemma pagesLoop_index:
  assumes "n = length acc" "map chunk_index acc = [0..<n]"
    "map (meta_chunk_index \<circ> meta) acc = [0..<n]"
  shows "map chunk_index (fst (pagesLoop pages options (acc, n))) =
           [0..<length (fst (pagesLoop pages options (acc, n)))] \<and>
         map (meta_chunk_index \<circ> meta) (fst (pagesLoop pages options (acc, n))) =
           [0..<length (fst (pagesLoop pages options (acc, n)))]"
  using assms
proof (induction pages arbitrary: acc n)
  case Nil
  then show ?case by simp
next
  case (Cons page pages)
  let ?cs = "chunkText (pageText page) (pageNo page) options"
  obtain acc' n' where step: "pushGlobal ?cs (acc, n) = (acc', n')"
    by (cases "pushGlobal ?cs (acc, n)")
  have n': "n' = n + length ?cs"
    using pushGlobal_snd [of ?cs acc n] step by simp
  have i1: "map chunk_index acc' = [0..<n] @ [n..<n + length ?cs]"
    using pushGlobal_index [of ?cs acc n] step Cons.prems by simp
  have i2: "map (meta_chunk_index \<circ> meta) acc' = [0..<n] @ [n..<n + length ?cs]"
    using pushGlobal_meta_index [of ?cs acc n] step Cons.prems by simp
  have up: "[0..<n] @ [n..<n + length ?cs] = [0..<n']"
    using n' by (metis upt_add_eq_append zero_le)
  have len: "n' = length acc'"
    using i1 up by (metis length_map length_upt minus_nat.diff_0)
  have a: "map chunk_index acc' = [0..<n']"
    using i1 up by simp
  have b: "map (meta_chunk_index \<circ> meta) acc' = [0..<n']"
    using i2 up by simp
  show ?case
    using Cons.IH [OF len a b] step by simp
qed

subsection \<open>The overlap loop\<close>

lemma overlapLoop_sum:
  "sum_list (map countTokens (fst (overlapLoop xs t acc n))) + n =
     snd (overlapLoop xs t acc n) + sum_list (map countTokens acc)"
proof (induction xs arbitrary: acc n)
  case Nil
  show ?case by simp
next
  case (Cons x xs)
  show ?case
    using Cons [of "x # acc" "n + countTokens x"] by simp
qed

lemma overlapLoop_shape:
  "\<exists>ys zs. xs = ys @ zs \<and> fst (overlapLoop xs t acc n) = rev ys @ acc"
proof (induction xs arbitrary: acc n)
  case Nil
  show ?case by simp
next
  case (Cons x xs)
  show ?case
  proof (cases "int n < t")
    case True
    obtain ys zs where "xs = ys @ zs"
      "fst (overlapLoop xs t (x # acc) (n + countTokens x)) = rev ys @ x # acc"
      using Cons [of "x # acc" "n + countTokens x"] by blast
    then have "x # xs = (x # ys) @ zs \<and> fst (overlapLoop (x # xs) t acc n) = rev (x # ys) @ acc"
      using True by simp
    then show ?thesis by blast
  next
    case False
    then have "x # xs = [] @ (x # xs) \<and> fst (overlapLoop (x # xs) t acc n) = rev [] @ acc"
      by simp
    then show ?thesis by blast
  qed
qed

lemma overlapLoop_reaches:
  "fst (overlapLoop xs t acc n) = rev xs @ acc \<or> t \<le> int (snd (overlapLoop xs t acc n))"
proof (induction xs arbitrary: acc n)
  case Nil
  show ?case by simp
next
  case (Cons x xs)
  show ?case
    using Cons [of "x # acc" "n + countTokens x"] by auto
qed

lemma overlapLoop_minimal:
  "fst (overlapLoop xs t acc n) \<noteq> acc \<Longrightarrow>
   int (snd (overlapLoop xs t acc n)) - int (countTokens (hd (fst (overlapLoop xs t acc n)))) < t"
proof (induction xs arbitrary: acc n)
  case Nil
  then show ?case by simp
next
  case (Cons x xs)
  have lt: "int n < t"
    using Cons.prems by (auto split: if_splits)
  let ?r = "overlapLoop xs t (x # acc) (n + countTokens x)"
  have r: "overlapLoop (x # xs) t acc n = ?r"
    using lt by simp
  show ?case
  proof (cases "fst ?r = x # acc")
    case True
    have "sum_list (map countTokens (fst ?r)) + (n + countTokens x) =
            snd ?r + sum_list (map countTokens (x # acc))"
      by (rule overlapLoop_sum)
    then have "snd ?r = n + countTokens x"
      using True by simp
    then show ?thesis
      using r True lt by simp
  next
    case False
    then show ?thesis
      using Cons.IH [of "x # acc" "n + countTokens x"] r by simp
  qed
qed

lemma seed_facts:
  fixes cur :: "string list" and t :: int
  defines "seed \<equiv> fst (overlapLoop (rev cur) t [] 0)"
    and "toks \<equiv> snd (overlapLoop (rev cur) t [] 0)"
  shows "suffix seed cur"
    and "toks = sum_list (map countTokens seed)"
    and "seed = cur \<or> t \<le> int toks"
    and "seed \<noteq> [] \<Longrightarrow> int (sum_list (map countTokens (tl seed))) < t"
proof -
  obtain ys zs where "rev cur = ys @ zs" "seed = rev ys @ []"
    unfolding seed_def using overlapLoop_shape [of "rev cur" t "[]" 0] by blast
  then have "cur = rev zs @ seed"
    by (metis append_Nil2 rev_append rev_rev_ident)
  then show "suffix seed cur"
    by (simp add: suffix_def)
  show sum: "toks = sum_list (map countTokens seed)"
    unfolding seed_def toks_def using overlapLoop_sum [of "rev cur" t "[]" 0] by simp
  show "seed = cur \<or> t \<le> int toks"
    unfolding seed_def toks_def using overlapLoop_reaches [of "rev cur" t "[]" 0] by simp
  show "int (sum_list (map countTokens (tl seed))) < t" if "seed \<noteq> []"
  proof -
    have "int toks - int (countTokens (hd seed)) < t"
      unfolding seed_def toks_def using that overlapLoop_minimal [of "rev cur" t "[]" 0]
      by (simp add: seed_def)
    moreover have "toks = countTokens (hd seed) + sum_list (map countTokens (tl seed))"
      using sum that by (cases seed) simp_all
    ultimately show ?thesis by simp
  qed
qed

subsection \<open>The sentences of the chunks\<close>














subsection \<open>The rounding of doubles\<close>










subsection \<open>minTokens is not read\<close>

lemma mergeOptions_minTokens:
  "mergeOptions (options\<lparr>minTokens := m\<rparr>) =
     (mergeOptions options)\<lparr>req_minTokens := req_minTokens (mergeOptions (options\<lparr>minTokens := m\<rparr>))\<rparr>"
  by (simp add: mergeOptions_def)

lemma saveChunk_minTokens:
  "saveChunk (opts\<lparr>req_minTokens := v\<rparr>) pno st = saveChunk opts pno st"
  by (simp add: saveChunk_def overlapTokenTarget_def)

lemma processSentence_minTokens:
  "processSentence (opts\<lparr>req_minTokens := v\<rparr>) pno isLast sentence st =
     processSentence opts pno isLast sentence st"
  by (simp add: processSentence_def Let_def saveChunk_minTokens)

lemma chunkLoop_minTokens:
  "chunkLoop (opts\<lparr>req_minTokens := v\<rparr>) pno sentences st = chunkLoop opts pno sentences st"
  by (induction sentences arbitrary: st) (simp_all add: processSentence_minTokens)

lemma chunkText_minTokens:
  "chunkText text pno (options\<lparr>minTokens := m\<rparr>) = chunkText text pno options"
  unfolding chunkText_def Let_def
  by (subst mergeOptions_minTokens) (simp add: chunkLoop_minTokens)

lemma pagesLoop_minTokens:
  "pagesLoop pages (options\<lparr>minTokens := m\<rparr>) acc = pagesLoop pages options acc"
  by (induction pages arbitrary: acc) (simp_all add: chunkText_minTokens)

section \<open>Claims about the chunker\<close>

subsection \<open>C1: positions\<close>

text \<open>
  C1, as stated, fails. Two pages of two sentences each, with \<open>maxTokens = 2\<close>, give
  four chunks with the global indices 0, 1, 2, 3 and the positions start, end, start,
  end: the chunk with index 1 is not the last and has position \<open>end\<close>, and the chunk
  with index 2 has position \<open>start\<close>. The claim asks for start, middle, middle, end.
\<close>

theorem chunkPages_positions_counterexample:
  "map chunk_index
     (chunkPages [\<lparr>pageNo = 1, pageText = ''Aaaa. Bbbb.''\<rparr>, \<lparr>pageNo = 2, pageText = ''Cccc. Dddd.''\<rparr>]
        \<lparr>minTokens = None, maxTokens = Some 2, overlapPercentage = None\<rparr>) = [0, 1, 2, 3] \<and>
   map (position \<circ> meta)
     (chunkPages [\<lparr>pageNo = 1, pageText = ''Aaaa. Bbbb.''\<rparr>, \<lparr>pageNo = 2, pageText = ''Cccc. Dddd.''\<rparr>]
        \<lparr>minTokens = None, maxTokens = Some 2, overlapPercentage = None\<rparr>) = [Start, End, Start, End] \<and>
   claimedPositions 4 = [Start, Middle, Middle, End]"
  by code_simp

text \<open>
  C1, amended. Positions are assigned page by page: among the chunks that
  \<open>chunkText\<close> returns for one page, the last has position \<open>end\<close> (also when it is
  the only one), the first of several has position \<open>start\<close> and the others have
  position \<open>middle\<close>; \<open>chunkPages\<close> keeps these positions when it renumbers, so the
  positions of a document are the per-page position sequences, one after the other.
\<close>

theorem chunkPages_positions_per_page:
  "map (position \<circ> meta) (chunkText text pno options) =
     claimedPositions (length (chunkText text pno options)) \<and>
   map (position \<circ> meta) (chunkPages pages options) =
     concat (map (\<lambda>page. claimedPositions (length (chunkText (pageText page) (pageNo page) options)))
               pages)"
proof
  show "map (position \<circ> meta) (chunkText text pno options) =
          claimedPositions (length (chunkText text pno options))"
    using chunkText_pageOk by (rule pageOk_positions)
next
  have "map (position \<circ> meta) (chunkPages pages options) =
          concat (map (\<lambda>page. map (position \<circ> meta) (chunkText (pageText page) (pageNo page) options))
                    pages)"
    by (rule chunkPages_map) simp
  also have "\<dots> = concat (map (\<lambda>page. claimedPositions
                       (length (chunkText (pageText page) (pageNo page) options))) pages)"
    using pageOk_positions [OF chunkText_pageOk] by simp
  finally show "map (position \<circ> meta) (chunkPages pages options) =
     concat (map (\<lambda>page. claimedPositions (length (chunkText (pageText page) (pageNo page) options)))
               pages)" .
qed

subsection \<open>C2: has_overlap\<close>

text \<open>
  C2, as stated, fails. Two pages of one sentence each give two chunks with the global
  indices 0 and 1, and the chunk with index 1 has \<open>has_overlap = false\<close>.
\<close>

theorem chunkPages_has_overlap_counterexample:
  "map chunk_index
     (chunkPages [\<lparr>pageNo = 1, pageText = ''A.''\<rparr>, \<lparr>pageNo = 2, pageText = ''B.''\<rparr>] noOptions) = [0, 1] \<and>
   map (has_overlap \<circ> meta)
     (chunkPages [\<lparr>pageNo = 1, pageText = ''A.''\<rparr>, \<lparr>pageNo = 2, pageText = ''B.''\<rparr>] noOptions) =
     [False, False]"
  by code_simp

lemma hd_concat_overlap:
  "concat (map (\<lambda>n. map (\<lambda>i. 0 < i) [0..<n]) ns) \<noteq> [] \<Longrightarrow>
   \<not> hd (concat (map (\<lambda>n. map (\<lambda>i. 0 < i) [0..<n]) ns))"
proof (induction ns)
  case Nil
  then show ?case by simp
next
  case (Cons n ns)
  show ?case
  proof (cases n)
    case 0
    then show ?thesis using Cons by simp
  next
    case (Suc k)
    then have "[0..<n] = 0 # [1..<n]"
      by (simp add: upt_conv_Cons del: upt_Suc)
    then show ?thesis by simp
  qed
qed

text \<open>
  C2, amended. \<open>has_overlap\<close> is true exactly for the chunks that are not the first
  chunk of their page: the flags of a document are, page after page, false for the
  first chunk of the page and true for the others. The chunk with global index 0, the
  first of the sequence, has \<open>has_overlap = false\<close>.
\<close>

theorem chunkPages_has_overlap_per_page:
  "map (has_overlap \<circ> meta) (chunkPages pages options) =
     concat (map (\<lambda>page. map (\<lambda>i. 0 < i) [0..<length (chunkText (pageText page) (pageNo page) options)])
               pages) \<and>
   (chunkPages pages options \<noteq> [] \<longrightarrow> \<not> has_overlap (meta (hd (chunkPages pages options))))"
proof -
  let ?ns = "map (\<lambda>page. length (chunkText (pageText page) (pageNo page) options)) pages"
  have "map (has_overlap \<circ> meta) (chunkPages pages options) =
          concat (map (\<lambda>page. map (has_overlap \<circ> meta) (chunkText (pageText page) (pageNo page) options))
                    pages)"
    by (rule chunkPages_map) simp
  then have eq: "map (has_overlap \<circ> meta) (chunkPages pages options) =
     concat (map (\<lambda>page. map (\<lambda>i. 0 < i) [0..<length (chunkText (pageText page) (pageNo page) options)])
               pages)"
    using pageOk_overlap [OF chunkText_pageOk] by simp
  then have eq': "map (has_overlap \<circ> meta) (chunkPages pages options) =
     concat (map (\<lambda>n. map (\<lambda>i. 0 < i) [0..<n]) ?ns)"
    by (simp add: comp_def)
  have "\<not> has_overlap (meta (hd (chunkPages pages options)))" if ne: "chunkPages pages options \<noteq> []"
  proof -
    have "hd (map (has_overlap \<circ> meta) (chunkPages pages options)) =
            has_overlap (meta (hd (chunkPages pages options)))"
      using ne by (simp add: hd_map)
    moreover have "\<not> hd (map (has_overlap \<circ> meta) (chunkPages pages options))"
      unfolding eq' using hd_concat_overlap [of ?ns] ne eq' by (metis map_is_Nil_conv)
    ultimately show ?thesis by simp
  qed
  then show ?thesis using eq by blast
qed

text \<open>The theorem for C2 at a document of two pages, whose chunk sequence is not empty.\<close>

theorem chunkPages_has_overlap_per_page_witness:
  "chunkPages [\<lparr>pageNo = 1, pageText = ''A.''\<rparr>, \<lparr>pageNo = 2, pageText = ''B.''\<rparr>] noOptions \<noteq> [] \<and>
   \<not> has_overlap (meta (hd (chunkPages [\<lparr>pageNo = 1, pageText = ''A.''\<rparr>, \<lparr>pageNo = 2, pageText = ''B.''\<rparr>] noOptions)))"
proof -
  have ne: "chunkPages [\<lparr>pageNo = 1, pageText = ''A.''\<rparr>, \<lparr>pageNo = 2, pageText = ''B.''\<rparr>] noOptions \<noteq> []"
    by code_simp
  show ?thesis
    using ne chunkPages_has_overlap_per_page
            [of "[\<lparr>pageNo = 1, pageText = ''A.''\<rparr>, \<lparr>pageNo = 2, pageText = ''B.''\<rparr>]" noOptions]
    by blast
qed

subsection \<open>C3: minTokens above maxTokens\<close>

text \<open>
  C3, as stated, fails. With \<open>minTokens = 2000\<close> and \<open>maxTokens = 1200\<close> the
  segmentation of one page with two sentences returns its chunk; there is no error.
\<close>

theorem min_above_max_counterexample:
  "(1200 :: rat) < 2000 \<and>
   chunkPages [\<lparr>pageNo = 1, pageText = ''First sentence. Second sentence.''\<rparr>]
     \<lparr>minTokens = Some 2000, maxTokens = Some 1200, overlapPercentage = None\<rparr> =
   [makeChunk ''First sentence. Second sentence.'' 8 1 0 End]"
  by code_simp

text \<open>
  C3, amended. \<open>minTokens\<close> is never read: whatever value the caller supplies for it,
  also one above \<open>maxTokens\<close>, \<open>chunkText\<close> and \<open>chunkPages\<close> return the chunks
  they return without it.
\<close>

theorem minTokens_ignored:
  "chunkText text pno (options\<lparr>minTokens := m\<rparr>) = chunkText text pno options \<and>
   chunkPages pages (options\<lparr>minTokens := m\<rparr>) = chunkPages pages options"
  by (simp add: chunkText_minTokens chunkPages_def pagesLoop_minTokens)

subsection \<open>C4: the overlap seed\<close>


text \<open>
  The state of \<open>saveChunk\<close>: the accumulator it leaves is the overlap, with the
  properties that the loop gives it.
\<close>

lemma saveChunk_seed:
  "suffix (currentChunk (saveChunk opts pno st)) (currentChunk st) \<and>
   currentTokens (saveChunk opts pno st) =
     sum_list (map countTokens (currentChunk (saveChunk opts pno st))) \<and>
   (currentChunk (saveChunk opts pno st) = currentChunk st \<or>
      overlapTokenTarget opts (countTokens (join (currentChunk st)))
        \<le> int (currentTokens (saveChunk opts pno st))) \<and>
   (currentChunk (saveChunk opts pno st) \<noteq> [] \<longrightarrow>
      int (sum_list (map countTokens (tl (currentChunk (saveChunk opts pno st)))))
        < overlapTokenTarget opts (countTokens (join (currentChunk st))))"
  using seed_facts [of "currentChunk st" "overlapTokenTarget opts (countTokens (join (currentChunk st)))"]
  by (simp add: saveChunk_def Let_def)



subsection \<open>C7: global chunk indices\<close>

text \<open>
  C7. The values of \<open>chunk_index\<close> of the chunks that \<open>chunkPages\<close> returns are, in
  output order, 0, 1, ..., N - 1, where N is the number of chunks; \<open>meta.chunk_index\<close>
  carries the same values.
\<close>

theorem chunk_index_contiguous:
  "map chunk_index (chunkPages pages options) = [0..<length (chunkPages pages options)] \<and>
   map (meta_chunk_index \<circ> meta) (chunkPages pages options) =
     [0..<length (chunkPages pages options)]"
  using pagesLoop_index [of 0 "[]" pages options] by (simp add: chunkPages_def)

subsection \<open>C9: no empty chunk\<close>

text \<open>
  C9. Every chunk that \<open>chunkText\<close> or \<open>chunkPages\<close> returns has a non-empty
  content and a token count of at least 1.
\<close>

theorem chunks_nonempty:
  "(\<forall>c \<in> set (chunkText text pno options). content c \<noteq> [] \<and> 1 \<le> token_count c) \<and>
   (\<forall>c \<in> set (chunkPages pages options). content c \<noteq> [] \<and> 1 \<le> token_count c)"
proof
  have page: "\<forall>c \<in> set (chunkText t p options). content c \<noteq> [] \<and> 1 \<le> token_count c"
    for t p
    using pageOk_content [OF chunkText_pageOk] by blast
  then show "\<forall>c \<in> set (chunkText text pno options). content c \<noteq> [] \<and> 1 \<le> token_count c" .
  let ?f = "\<lambda>c. content c \<noteq> [] \<and> 1 \<le> token_count c"
  have "map ?f (chunkPages pages options) =
          concat (map (\<lambda>page. map ?f (chunkText (pageText page) (pageNo page) options)) pages)"
    by (rule chunkPages_map) simp
  moreover have "set (concat (map (\<lambda>page. map ?f (chunkText (pageText page) (pageNo page) options)) pages))
                   \<subseteq> {True}"
    using page by auto
  ultimately have "set (map ?f (chunkPages pages options)) \<subseteq> {True}"
    by simp
  then show "\<forall>c \<in> set (chunkPages pages options). content c \<noteq> [] \<and> 1 \<le> token_count c"
    by auto
qed

text \<open>The theorem for C9 at a page with one sentence, for the chunk it yields.\<close>

theorem chunks_nonempty_witness:
  "makeChunk ''Just one sentence.'' 5 1 0 End \<in> set (chunkText ''Just one sentence.'' 1 noOptions) \<and>
   makeChunk ''Just one sentence.'' 5 1 0 End
     \<in> set (chunkPages [\<lparr>pageNo = 1, pageText = ''Just one sentence.''\<rparr>] noOptions) \<and>
   content (makeChunk ''Just one sentence.'' 5 1 0 End) \<noteq> [] \<and>
   1 \<le> token_count (makeChunk ''Just one sentence.'' 5 1 0 End)"
proof -
  have a: "makeChunk ''Just one sentence.'' 5 1 0 End \<in> set (chunkText ''Just one sentence.'' 1 noOptions)"
    by code_simp
  have b: "makeChunk ''Just one sentence.'' 5 1 0 End
     \<in> set (chunkPages [\<lparr>pageNo = 1, pageText = ''Just one sentence.''\<rparr>] noOptions)"
    by code_simp
  show ?thesis
    using a b chunks_nonempty [of "''Just one sentence.''" 1 noOptions
                                  "[\<lparr>pageNo = 1, pageText = ''Just one sentence.''\<rparr>]"]
    by blast
qed

section \<open>Properties of the fuzzy search\<close>

subsection \<open>The matrix of levenshteinDistance\<close>

lemma setCell_row:
  "j' < length m \<Longrightarrow> setCell m j i v ! j' = (if j' = j then (m ! j)[i := v] else m ! j')"
  by (simp add: setCell_def nth_list_update)

lemma setCell_shaped:
  assumes "shaped n1 n2 m"
  shows "shaped n1 n2 (setCell m j i v)"
proof -
  have len: "length m = n2 + 1" and rows: "\<And>j'. j' \<le> n2 \<Longrightarrow> length (m ! j') = n1 + 1"
    using assms by (simp_all add: shaped_def)
  have "length (setCell m j i v ! j') = n1 + 1" if "j' \<le> n2" for j'
  proof -
    have "j' < length m" using that len by simp
    then show ?thesis
      using setCell_row [of j' m j i v] rows [OF that] by auto
  qed
  moreover have "length (setCell m j i v) = n2 + 1"
    using len by (simp add: setCell_def)
  ultimately show ?thesis by (simp add: shaped_def)
qed

lemma setCell_nth:
  assumes "shaped n1 n2 m" "j \<le> n2" "i \<le> n1"
  shows "setCell m j i v ! j' ! i' = (if j' = j \<and> i' = i then v else m ! j' ! i')"
proof (cases "j' = j")
  case True
  have "j < length m" using assms(1,2) by (simp add: shaped_def)
  moreover have "i < length (m ! j)" using assms by (simp add: shaped_def)
  ultimately show ?thesis
    using True by (simp add: setCell_def nth_list_update)
next
  case False
  then show ?thesis by (simp add: setCell_def)
qed

lemma editDistance_zero_right: "editDistance a b i 0 = i"
  by (cases i) simp_all

lemma firstRow:
  assumes "shaped n1 n2 m0" "k \<le> n1 + 1"
  shows "shaped n1 n2 (fold (\<lambda>i matrix. setCell matrix 0 i i) [0..<k] m0) \<and>
         (\<forall>i<k. fold (\<lambda>i matrix. setCell matrix 0 i i) [0..<k] m0 ! 0 ! i = i)"
  using assms(2)
proof (induction k)
  case 0
  then show ?case using assms(1) by simp
next
  case (Suc k)
  let ?m = "fold (\<lambda>i matrix. setCell matrix 0 i i) [0..<k] m0"
  have ih: "shaped n1 n2 ?m" "\<forall>i<k. ?m ! 0 ! i = i"
    using Suc by simp_all
  have step: "fold (\<lambda>i matrix. setCell matrix 0 i i) [0..<Suc k] m0 = setCell ?m 0 k k"
    by simp
  have "setCell ?m 0 k k ! 0 ! i = i" if "i < Suc k" for i
    using that ih Suc.prems setCell_nth [OF ih(1), of 0 k k 0 i] by (cases "i = k") simp_all
  then show ?case
    unfolding step using setCell_shaped [OF ih(1)] by simp
qed

lemma firstColumn:
  assumes "shaped n1 n2 m1" "\<forall>i\<le>n1. m1 ! 0 ! i = i" "k \<le> n2 + 1"
  shows "shaped n1 n2 (fold (\<lambda>j matrix. setCell matrix j 0 j) [0..<k] m1) \<and>
         (\<forall>j<k. fold (\<lambda>j matrix. setCell matrix j 0 j) [0..<k] m1 ! j ! 0 = j) \<and>
         (\<forall>i\<le>n1. fold (\<lambda>j matrix. setCell matrix j 0 j) [0..<k] m1 ! 0 ! i = i)"
  using assms(3)
proof (induction k)
  case 0
  then show ?case using assms(1,2) by simp
next
  case (Suc k)
  let ?m = "fold (\<lambda>j matrix. setCell matrix j 0 j) [0..<k] m1"
  have ih: "shaped n1 n2 ?m" "\<forall>j<k. ?m ! j ! 0 = j" "\<forall>i\<le>n1. ?m ! 0 ! i = i"
    using Suc by simp_all
  have step: "fold (\<lambda>j matrix. setCell matrix j 0 j) [0..<Suc k] m1 = setCell ?m k 0 k"
    by simp
  have cell: "setCell ?m k 0 k ! j ! i = (if j = k \<and> i = 0 then k else ?m ! j ! i)" for j i
    using setCell_nth [OF ih(1), of k 0 k j i] Suc.prems by simp
  have a: "setCell ?m k 0 k ! j ! 0 = j" if "j < Suc k" for j
    using that ih(2) cell [of j 0] by (cases "j = k") simp_all
  have b: "setCell ?m k 0 k ! 0 ! i = i" if "i \<le> n1" for i
    using that ih(3) cell [of 0 i] by auto
  show ?case
    unfolding step using setCell_shaped [OF ih(1)] a b by simp
qed

lemma levenshteinCell_filled:
  assumes "filled a b (Suc j0) (Suc i0) m" "Suc j0 \<le> length b" "Suc i0 \<le> length a"
  shows "filled a b (Suc j0) (Suc (Suc i0)) (levenshteinCell a b (Suc j0) (Suc i0) m)"
proof -
  have sh: "shaped (length a) (length b) m"
    using assms(1) by (simp add: filled_def)
  have known: "m ! j' ! i' = editDistance a b i' j'"
    if "j' \<le> length b" "i' \<le> length a"
       "j' = 0 \<or> i' = 0 \<or> j' < Suc j0 \<or> (j' = Suc j0 \<and> i' < Suc i0)" for j' i'
    using assms(1) that unfolding filled_def by blast
  have left: "m ! Suc j0 ! i0 = editDistance a b i0 (Suc j0)"
    using assms(2,3) by (intro known) simp_all
  have up: "m ! j0 ! Suc i0 = editDistance a b (Suc i0) j0"
    using assms(2,3) by (intro known) simp_all
  have diag: "m ! j0 ! i0 = editDistance a b i0 j0"
    using assms(2,3) by (intro known) simp_all
  define v where "v = min (min (m ! Suc j0 ! i0 + 1) (m ! j0 ! Suc i0 + 1))
                (m ! j0 ! i0 + (if a ! i0 = b ! j0 then 0 else 1))"
  have v: "v = editDistance a b (Suc i0) (Suc j0)"
    unfolding v_def left up diag by simp
  have new: "levenshteinCell a b (Suc j0) (Suc i0) m = setCell m (Suc j0) (Suc i0) v"
    by (simp add: levenshteinCell_def Let_def v_def)
  have cell: "setCell m (Suc j0) (Suc i0) v ! j' ! i' =
                (if j' = Suc j0 \<and> i' = Suc i0 then v else m ! j' ! i')" for j' i'
    by (rule setCell_nth [OF sh assms(2) assms(3)])
  have "setCell m (Suc j0) (Suc i0) v ! j' ! i' = editDistance a b i' j'"
    if "j' \<le> length b" "i' \<le> length a"
       "j' = 0 \<or> i' = 0 \<or> j' < Suc j0 \<or> (j' = Suc j0 \<and> i' < Suc (Suc i0))" for j' i'
  proof (cases "j' = Suc j0 \<and> i' = Suc i0")
    case True
    then show ?thesis using cell [of j' i'] v by simp
  next
    case False
    then have "j' = 0 \<or> i' = 0 \<or> j' < Suc j0 \<or> (j' = Suc j0 \<and> i' < Suc i0)"
      using that(3) by auto
    then have "m ! j' ! i' = editDistance a b i' j'"
      by (rule known [OF that(1,2)])
    then show ?thesis using cell [of j' i'] False by simp
  qed
  then show ?thesis
    unfolding new filled_def using setCell_shaped [OF sh] by blast
qed

lemma row_filled:
  assumes "filled a b (Suc j0) 1 m" "Suc j0 \<le> length b" "k \<le> length a"
  shows "filled a b (Suc j0) (Suc k) (fold (levenshteinCell a b (Suc j0)) [1..<Suc k] m)"
  using assms(3)
proof (induction k)
  case 0
  then show ?case using assms(1) by simp
next
  case (Suc k)
  have ih: "filled a b (Suc j0) (Suc k) (fold (levenshteinCell a b (Suc j0)) [1..<Suc k] m)"
    using Suc by simp
  have step: "fold (levenshteinCell a b (Suc j0)) [1..<Suc (Suc k)] m =
          levenshteinCell a b (Suc j0) (Suc k) (fold (levenshteinCell a b (Suc j0)) [1..<Suc k] m)"
    by simp
  show ?case
    unfolding step using Suc.prems by (intro levenshteinCell_filled [OF ih assms(2)])
qed

lemma next_row:
  assumes "filled a b j (Suc (length a)) m"
  shows "filled a b (Suc j) 1 m"
proof -
  have sh: "shaped (length a) (length b) m"
    using assms by (simp add: filled_def)
  have known: "m ! j' ! i' = editDistance a b i' j'"
    if "j' \<le> length b" "i' \<le> length a"
       "j' = 0 \<or> i' = 0 \<or> j' < j \<or> (j' = j \<and> i' < Suc (length a))" for j' i'
    using assms that by (simp add: filled_def)
  have "m ! j' ! i' = editDistance a b i' j'"
    if "j' \<le> length b" "i' \<le> length a"
       "j' = 0 \<or> i' = 0 \<or> j' < Suc j \<or> (j' = Suc j \<and> i' < 1)" for j' i'
  proof -
    have "j' = 0 \<or> i' = 0 \<or> j' < j \<or> (j' = j \<and> i' < Suc (length a))"
      using that(2,3) by auto
    then show ?thesis by (rule known [OF that(1,2)])
  qed
  then show ?thesis
    unfolding filled_def using sh by blast
qed

lemma rows_filled:
  assumes "filled a b 1 1 m" "k \<le> length b"
  shows "filled a b (Suc k) 1
           (fold (\<lambda>j matrix. fold (levenshteinCell a b j) [1..<length a + 1] matrix) [1..<Suc k] m)"
  using assms(2)
proof (induction k)
  case 0
  then show ?case using assms(1) by simp
next
  case (Suc k)
  define mk where
    "mk = fold (\<lambda>j matrix. fold (levenshteinCell a b j) [1..<length a + 1] matrix) [1..<Suc k] m"
  have ih: "filled a b (Suc k) 1 mk"
    unfolding mk_def using Suc by simp
  have "filled a b (Suc k) (Suc (length a)) (fold (levenshteinCell a b (Suc k)) [1..<Suc (length a)] mk)"
    using Suc.prems by (intro row_filled [OF ih]) simp_all
  then have "filled a b (Suc (Suc k)) 1 (fold (levenshteinCell a b (Suc k)) [1..<Suc (length a)] mk)"
    by (rule next_row)
  moreover have "fold (\<lambda>j matrix. fold (levenshteinCell a b j) [1..<length a + 1] matrix)
                   [1..<Suc (Suc k)] m =
                 fold (levenshteinCell a b (Suc k)) [1..<Suc (length a)] mk"
    unfolding mk_def by simp
  ultimately show ?case by simp
qed

lemma levenshteinDistance_editDistance:
  "levenshteinDistance a b = editDistance a b (length a) (length b)"
proof -
  let ?m0 = "replicate (length b + 1) (replicate (length a + 1) (0::nat))"
  let ?m1 = "fold (\<lambda>i matrix. setCell matrix 0 i i) [0..<length a + 1] ?m0"
  let ?m2 = "fold (\<lambda>j matrix. setCell matrix j 0 j) [0..<length b + 1] ?m1"
  let ?m3 = "fold (\<lambda>j matrix. fold (levenshteinCell a b j) [1..<length a + 1] matrix)
               [1..<length b + 1] ?m2"
  have s0: "shaped (length a) (length b) ?m0"
    unfolding shaped_def by (simp del: replicate_Suc add: nth_replicate)
  have r1: "shaped (length a) (length b) ?m1" "\<forall>i\<le>length a. ?m1 ! 0 ! i = i"
    using firstRow [OF s0, of "length a + 1"] by (simp_all add: less_Suc_eq_le)
  have r2: "shaped (length a) (length b) ?m2" "\<forall>j\<le>length b. ?m2 ! j ! 0 = j"
    "\<forall>i\<le>length a. ?m2 ! 0 ! i = i"
    using firstColumn [OF r1, of "length b + 1"] by (simp_all add: less_Suc_eq_le)
  have f2: "filled a b 1 1 ?m2"
    unfolding filled_def using r2 by (auto simp: editDistance_zero_right)
  have "filled a b (Suc (length b)) 1 ?m3"
    using rows_filled [OF f2, of "length b"] by simp
  then have "?m3 ! length b ! length a = editDistance a b (length a) (length b)"
    unfolding filled_def by simp
  then show ?thesis
    by (simp add: levenshteinDistance_def Let_def)
qed

subsection \<open>The edit distance is the least number of edits\<close>

lemma edits_snoc_delete: "edits xs ys n \<Longrightarrow> edits (xs @ [x]) ys (Suc n)"
  by (induction rule: edits.induct) (auto intro: edits.intros)

lemma edits_snoc_insert: "edits xs ys n \<Longrightarrow> edits xs (ys @ [y]) (Suc n)"
  by (induction rule: edits.induct) (auto intro: edits.intros)

lemma edits_snoc_keep: "edits xs ys n \<Longrightarrow> edits (xs @ [x]) (ys @ [x]) n"
  by (induction rule: edits.induct) (auto intro: edits.intros)

lemma edits_snoc_substitute: "edits xs ys n \<Longrightarrow> edits (xs @ [x]) (ys @ [y]) (Suc n)"
  by (induction rule: edits.induct) (auto intro: edits.intros)

lemma edits_rev: "edits xs ys n \<Longrightarrow> edits (rev xs) (rev ys) n"
  by (induction rule: edits.induct)
     (auto intro: edits.finish edits_snoc_delete edits_snoc_insert edits_snoc_keep
        edits_snoc_substitute)

lemma edits_insert_all: "edits [] ys (length ys)"
  by (induction ys) (auto intro: edits.intros)

lemma edits_delete_all: "edits xs [] (length xs)"
  by (induction xs) (auto intro: edits.intros)

lemma rev_take_Suc: "i < length a \<Longrightarrow> rev (take (Suc i) a) = a ! i # rev (take i a)"
  by (simp add: take_Suc_conv_app_nth)

lemma rev_take_Cons:
  assumes "x # xs = rev (take i a)" "i \<le> length a"
  shows "\<exists>k. i = Suc k \<and> x = a ! k \<and> xs = rev (take k a)"
proof (cases i)
  case 0
  then show ?thesis using assms by simp
next
  case (Suc k)
  then have "k < length a" using assms(2) by simp
  then show ?thesis using assms(1) Suc by (simp add: rev_take_Suc)
qed

lemma rev_take_Nil: "[] = rev (take i a) \<Longrightarrow> i \<le> length a \<Longrightarrow> i = 0"
  by (cases i) auto

lemma editDistance_delete: "editDistance a b (Suc i) j \<le> Suc (editDistance a b i j)"
  by (cases j) (simp_all add: editDistance_zero_right)

lemma editDistance_insert: "editDistance a b i (Suc j) \<le> Suc (editDistance a b i j)"
  by (cases i) simp_all

lemma editDistance_keep: "a ! i = b ! j \<Longrightarrow> editDistance a b (Suc i) (Suc j) \<le> editDistance a b i j"
  by simp

lemma editDistance_substitute: "editDistance a b (Suc i) (Suc j) \<le> Suc (editDistance a b i j)"
  by (simp add: min_def)

lemma editDistance_lower:
  "edits xs ys n \<Longrightarrow> xs = rev (take i a) \<Longrightarrow> ys = rev (take j b) \<Longrightarrow>
   i \<le> length a \<Longrightarrow> j \<le> length b \<Longrightarrow> editDistance a b i j \<le> n"
proof (induction arbitrary: i j rule: edits.induct)
  case finish
  have "i = 0"
    using finish(1,3) by (rule rev_take_Nil)
  moreover have "j = 0"
    using finish(2,4) by (rule rev_take_Nil)
  ultimately show ?case by simp
next
  case (delete xs ys n x)
  obtain k where k: "i = Suc k" "x = a ! k" "xs = rev (take k a)"
    using rev_take_Cons [OF delete.prems(1) delete.prems(3)] by blast
  have kl: "k \<le> length a"
    using delete.prems(3) k(1) by simp
  have "editDistance a b k j \<le> n"
    by (rule delete.IH [OF k(3) delete.prems(2) kl delete.prems(4)])
  then show ?case
    unfolding k(1) using editDistance_delete [of a b k j] by linarith
next
  case (insert xs ys n y)
  obtain k where k: "j = Suc k" "y = b ! k" "ys = rev (take k b)"
    using rev_take_Cons [OF insert.prems(2) insert.prems(4)] by blast
  have kl: "k \<le> length b"
    using insert.prems(4) k(1) by simp
  have "editDistance a b i k \<le> n"
    by (rule insert.IH [OF insert.prems(1) k(3) insert.prems(3) kl])
  then show ?case
    unfolding k(1) using editDistance_insert [of a b i k] by linarith
next
  case (keep xs ys n x)
  obtain k where k: "i = Suc k" "x = a ! k" "xs = rev (take k a)"
    using rev_take_Cons [OF keep.prems(1) keep.prems(3)] by blast
  obtain l where l: "j = Suc l" "x = b ! l" "ys = rev (take l b)"
    using rev_take_Cons [OF keep.prems(2) keep.prems(4)] by blast
  have kl: "k \<le> length a" "l \<le> length b"
    using keep.prems(3,4) k(1) l(1) by simp_all
  have same: "a ! k = b ! l"
    using k(2) l(2) by simp
  have "editDistance a b k l \<le> n"
    by (rule keep.IH [OF k(3) l(3) kl])
  then show ?case
    unfolding k(1) l(1) using editDistance_keep [OF same] by linarith
next
  case (substitute xs ys n x y)
  obtain k where k: "i = Suc k" "x = a ! k" "xs = rev (take k a)"
    using rev_take_Cons [OF substitute.prems(1) substitute.prems(3)] by blast
  obtain l where l: "j = Suc l" "y = b ! l" "ys = rev (take l b)"
    using rev_take_Cons [OF substitute.prems(2) substitute.prems(4)] by blast
  have kl: "k \<le> length a" "l \<le> length b"
    using substitute.prems(3,4) k(1) l(1) by simp_all
  have "editDistance a b k l \<le> n"
    by (rule substitute.IH [OF k(3) l(3) kl])
  then show ?case
    unfolding k(1) l(1) using editDistance_substitute [of a b k l] by linarith
qed

lemma editDistance_upper:
  "i \<le> length a \<Longrightarrow> j \<le> length b \<Longrightarrow>
   edits (rev (take i a)) (rev (take j b)) (editDistance a b i j)"
proof (induction a b i j rule: editDistance.induct)
  case (1 a b j)
  then show ?case
    using edits_insert_all [of "rev (take j b)"] by simp
next
  case (2 a b i)
  then show ?case
    using edits_delete_all [of "rev (take (Suc i) a)"] by simp
next
  case (3 a b i j)
  have i: "i < length a" and j: "j < length b"
    using "3.prems" by simp_all
  have ra: "rev (take (Suc i) a) = a ! i # rev (take i a)"
    using i by (rule rev_take_Suc)
  have rb: "rev (take (Suc j) b) = b ! j # rev (take j b)"
    using j by (rule rev_take_Suc)
  have del: "edits (rev (take (Suc i) a)) (rev (take (Suc j) b)) (Suc (editDistance a b i (Suc j)))"
    unfolding ra using "3.IH"(1) "3.prems" i by (intro edits.delete) simp
  have ins: "edits (rev (take (Suc i) a)) (rev (take (Suc j) b)) (Suc (editDistance a b (Suc i) j))"
    unfolding rb using "3.IH"(2) "3.prems" j by (intro edits.insert) simp
  have diag: "edits (rev (take i a)) (rev (take j b)) (editDistance a b i j)"
    using "3.IH"(3) i j by simp
  have sub: "edits (rev (take (Suc i) a)) (rev (take (Suc j) b))
               (editDistance a b i j + (if a ! i = b ! j then 0 else 1))"
  proof (cases "a ! i = b ! j")
    case True
    then show ?thesis
      unfolding ra rb using edits.keep [OF diag, of "b ! j"] by simp
  next
    case False
    then show ?thesis
      unfolding ra rb using edits.substitute [OF diag, of "a ! i" "b ! j"] by simp
  qed
  show ?case
    using del ins sub by (simp add: min_def)
qed

lemma levenshteinDistance_minimal:
  "edits a b (levenshteinDistance a b) \<and> (edits a b n \<longrightarrow> levenshteinDistance a b \<le> n)"
proof
  have "edits (rev (take (length a) a)) (rev (take (length b) b)) (levenshteinDistance a b)"
    unfolding levenshteinDistance_editDistance by (rule editDistance_upper) simp_all
  then show "edits a b (levenshteinDistance a b)"
    using edits_rev by fastforce
next
  show "edits a b n \<longrightarrow> levenshteinDistance a b \<le> n"
  proof
    assume "edits a b n"
    then have "edits (rev a) (rev b) n" by (rule edits_rev)
    then show "levenshteinDistance a b \<le> n"
      unfolding levenshteinDistance_editDistance
      by (rule editDistance_lower) simp_all
  qed
qed

lemma documnt_edits: "edits ''documnt'' ''document'' 1"
proof -
  have "edits ''nt'' ''nt'' 0"
    by (intro edits.keep edits.finish)
  then have "edits ''nt'' ''ent'' (Suc 0)"
    by (rule edits.insert)
  then have "edits ''documnt'' ''document'' (Suc 0)"
    by (intro edits.keep)
  then show ?thesis by simp
qed

subsection \<open>The comparator and the insertion\<close>

lemma compareResults_le: "compareResults a b \<le> 0 \<longleftrightarrow> rankedBefore a b"
  by (auto simp: compareResults_def rankedBefore_def Let_def)

lemma rankedBefore_total: "\<not> rankedBefore a b \<Longrightarrow> rankedBefore b a"
  by (auto simp: rankedBefore_def)

lemma rankedBefore_trans: "rankedBefore a b \<Longrightarrow> rankedBefore b c \<Longrightarrow> rankedBefore a c"
  by (auto simp: rankedBefore_def)

lemma not_rankedBefore_key: "\<not> rankedBefore a b \<Longrightarrow> sortKey a \<noteq> sortKey b"
  by (auto simp: rankedBefore_def sortKey_def)

lemma set_insertResult: "set (insertResult a bs) = insert a (set bs)"
  by (induction bs) auto

lemma mset_insertResult: "mset (insertResult a bs) = add_mset a (mset bs)"
  by (induction bs) auto

lemma sorted_insertResult:
  "sorted_wrt rankedBefore bs \<Longrightarrow> sorted_wrt rankedBefore (insertResult a bs)"
proof (induction bs)
  case Nil
  show ?case by simp
next
  case (Cons b bs)
  show ?case
  proof (cases "compareResults a b \<le> 0")
    case True
    then have ab: "rankedBefore a b" by (simp add: compareResults_le)
    then have "\<forall>x\<in>set bs. rankedBefore a x"
      using Cons.prems rankedBefore_trans by auto
    then show ?thesis using True ab Cons.prems by simp
  next
    case False
    then have "rankedBefore b a"
      using rankedBefore_total by (simp add: compareResults_le)
    then show ?thesis
      using False Cons by (auto simp: set_insertResult)
  qed
qed

lemma filter_insertResult:
  "filter (\<lambda>r. sortKey r = k) (insertResult a bs) =
     (if sortKey a = k then a # filter (\<lambda>r. sortKey r = k) bs else filter (\<lambda>r. sortKey r = k) bs)"
proof (induction bs)
  case Nil
  show ?case by simp
next
  case (Cons b bs)
  show ?case
  proof (cases "compareResults a b \<le> 0")
    case True
    then show ?thesis by simp
  next
    case False
    then have "sortKey a \<noteq> sortKey b"
      using not_rankedBefore_key by (simp add: compareResults_le)
    then show ?thesis
      using False Cons by auto
  qed
qed

subsection \<open>The response of the route\<close>

lemma set_sortSearchResults: "set (sortSearchResults rs) = set rs"
  unfolding sortSearchResults_def by (induction rs) (simp_all add: set_insertResult)

lemma searchRoute_results_exact:
  assumes "searchRoute (Some q) threshold' searchResults = Inr response"
  shows "results response =
           map highlightResult
             (filterSearchResults
                (sortSearchResults (map (scoreChunk (preprocessQuery q)) (combineResults searchResults)))
                threshold')"
proof -
  have q: "q \<noteq> []"
    using assms by (auto simp: searchRoute_def split: if_splits)
  have r: "response = projr (searchRoute (Some q) threshold' searchResults)"
    using assms by simp
  show ?thesis
  proof (cases "length (combineResults searchResults) = 0")
    case True
    then show ?thesis
      unfolding r using q
      by (simp add: searchRoute_def Let_def filterSearchResults_def sortSearchResults_def)
  next
    case False
    then show ?thesis
      unfolding r using q by (simp add: searchRoute_def Let_def)
  qed
qed

subsection \<open>Scoring against the empty query\<close>

lemma levenshteinDistance_empty: "levenshteinDistance a [] = length a"
  by (simp add: levenshteinDistance_editDistance editDistance_zero_right)

lemma calculateSimilarity_empty:
  "w \<noteq> [] \<Longrightarrow> calculateSimilarity w [] = 0"
  by (simp add: calculateSimilarity_def Let_def toLowerCase_def levenshteinDistance_empty)

lemma fuzzyStep_empty: "fuzzyStep [] word st = st"
proof (cases "length word > 2")
  case True
  then have "word \<noteq> []" by auto
  then show ?thesis
    by (simp add: fuzzyStep_def Let_def calculateSimilarity_empty)
next
  case False
  then show ?thesis by (simp add: fuzzyStep_def)
qed

lemma fold_fuzzyStep_empty: "fold (fuzzyStep []) words st = st"
  by (induction words arbitrary: st) (simp_all add: fuzzyStep_empty)

lemma stringIncludes_empty: "stringIncludes s [] = True"
  by (cases s) simp_all

lemma splitWhitespace_empty: "splitWhitespace [] = [[]]"
  by (simp add: splitWhitespace.simps)

lemma generateQueryVariations_empty: "generateQueryVariations [] = [[]]"
  by (simp add: generateQueryVariations_def Let_def toLowerCase_def splitWhitespace_empty setAdd_def)

lemma calculateSearchScore_empty:
  "calculateSearchScore content' [] [[]] options =
     \<lparr>res_score = 100, res_matchType = Exact, res_highlights = [HExact, HPartial]\<rparr>"
proof -
  have low: "toLowerCase [] = []"
    by (simp add: toLowerCase_def)
  show ?thesis
    unfolding calculateSearchScore_def Let_def low
    by (simp add: stringIncludes_empty splitWhitespace_empty fold_fuzzyStep_empty partialStep_def
          split: option.split)
qed

lemma variations_preprocessQuery:
  "variations (preprocessQuery q) = generateQueryVariations (processed (preprocessQuery q))"
  by (simp add: preprocessQuery_def Let_def)

section \<open>Claims about the search\<close>

subsection \<open>C5: the distance between documnt and document\<close>

text \<open>
  C5, as stated, fails. One insertion (the letter e) turns \<open>documnt\<close> into
  \<open>document\<close>: \<open>levenshteinDistance\<close> returns 1, not 2, and \<open>calculateSimilarity\<close>
  returns 7/8, not 3/4.
\<close>

theorem levenshtein_documnt_counterexample:
  "levenshteinDistance ''documnt'' ''document'' = 1 \<and>
   levenshteinDistance ''documnt'' ''document'' \<noteq> 2 \<and>
   calculateSimilarity ''documnt'' ''document'' = 7 / 8 \<and>
   calculateSimilarity ''documnt'' ''document'' \<noteq> 3 / 4"
  by code_simp

text \<open>
  C5, amended. \<open>levenshteinDistance\<close> computes the classic unit-cost edit distance,
  for all strings: its result is the value of the recurrence, some script of that many
  edits turns the first string into the second, and no script has fewer. Between
  \<open>documnt\<close> and \<open>document\<close> the distance is 1, and \<open>calculateSimilarity\<close> of the
  two is (8 - 1) / 8 = 0.875.
\<close>

theorem levenshtein_documnt_distance:
  "levenshteinDistance a b = editDistance a b (length a) (length b) \<and>
   edits a b (levenshteinDistance a b) \<and>
   (edits a b n \<longrightarrow> levenshteinDistance a b \<le> n) \<and>
   levenshteinDistance ''documnt'' ''document'' = 1 \<and>
   calculateSimilarity ''documnt'' ''document'' = 7 / 8"
proof -
  have "levenshteinDistance ''documnt'' ''document'' = 1"
    by code_simp
  moreover have "calculateSimilarity ''documnt'' ''document'' = 7 / 8"
    by code_simp
  ultimately show ?thesis
    using levenshteinDistance_editDistance [of a b] levenshteinDistance_minimal [of a b n]
    by blast
qed

text \<open>
  The theorem for C5 at \<open>documnt\<close> and \<open>document\<close>, with the script of one edit that
  inserts the letter e.
\<close>

theorem levenshtein_documnt_distance_witness:
  "edits ''documnt'' ''document'' 1 \<and> levenshteinDistance ''documnt'' ''document'' \<le> 1"
  using documnt_edits levenshtein_documnt_distance [of "''documnt''" "''document''" 1]
  by blast

subsection \<open>C6: ranking\<close>

text \<open>
  C6, as stated, fails. Two results with the same match type and the same score, the
  one with \<open>chunk_index\<close> 5 collected before the one with \<open>chunk_index\<close> 2, stay in that
  order, and come out in the other order when they are collected in the other order;
  the route returns them as 5, 2. There is no tie-break on \<open>chunk_index\<close>.
\<close>

theorem sortSearchResults_tie_counterexample:
  "map (row_chunk_index \<circ> chunk)
     (sortSearchResults
        [\<lparr>chunk = \<lparr>row_id = ''a'', row_chunk_index = 5, row_content = ''document''\<rparr>,
          score = 100, highlights = [], matchType = Exact\<rparr>,
         \<lparr>chunk = \<lparr>row_id = ''b'', row_chunk_index = 2, row_content = ''document''\<rparr>,
          score = 100, highlights = [], matchType = Exact\<rparr>]) = [5, 2] \<and>
   map (row_chunk_index \<circ> chunk)
     (sortSearchResults
        [\<lparr>chunk = \<lparr>row_id = ''b'', row_chunk_index = 2, row_content = ''document''\<rparr>,
          score = 100, highlights = [], matchType = Exact\<rparr>,
         \<lparr>chunk = \<lparr>row_id = ''a'', row_chunk_index = 5, row_content = ''document''\<rparr>,
          score = 100, highlights = [], matchType = Exact\<rparr>]) = [2, 5] \<and>
   map_sum id (map (row_chunk_index \<circ> hr_chunk) \<circ> results)
     (searchRoute (Some ''document'') (Finite 10)
        [Some [\<lparr>row_id = ''a'', row_chunk_index = 5, row_content = ''document''\<rparr>,
               \<lparr>row_id = ''b'', row_chunk_index = 2, row_content = ''document''\<rparr>]]) = Inr [5, 2]"
  by code_simp

text \<open>
  C6, amended. The ranking step returns the results it is given (each as often as it
  is given), ordered by match-type priority descending, then by score descending;
  results with the same match type and the same score keep the order in which they
  were collected.
\<close>

theorem sortSearchResults_stable_ranking:
  "sorted_wrt rankedBefore (sortSearchResults rs) \<and>
   mset (sortSearchResults rs) = mset rs \<and>
   filter (\<lambda>r. sortKey r = k) (sortSearchResults rs) = filter (\<lambda>r. sortKey r = k) rs"
  unfolding sortSearchResults_def
  by (induction rs) (simp_all add: sorted_insertResult mset_insertResult filter_insertResult)

subsection \<open>C8: the threshold\<close>

text \<open>
  C8, as stated, fails in its second half: the results are not truncated to
  \<open>max_results\<close>. With \<open>maxResults = 1\<close> and four strategies that each return one
  row, all different, the response holds four results.
\<close>

theorem search_truncation_counterexample:
  "map_sum id (map (row_id \<circ> hr_chunk) \<circ> results)
     (searchGET (Some ''alpha beta'') (Finite 10) 1
        [Some [\<lparr>row_id = ''r1'', row_chunk_index = 0, row_content = ''alpha beta''\<rparr>,
               \<lparr>row_id = ''r2'', row_chunk_index = 1, row_content = ''alpha beta again''\<rparr>],
         Some [\<lparr>row_id = ''r2'', row_chunk_index = 1, row_content = ''alpha beta again''\<rparr>,
               \<lparr>row_id = ''r1'', row_chunk_index = 0, row_content = ''alpha beta''\<rparr>],
         Some [\<lparr>row_id = ''r3'', row_chunk_index = 2, row_content = ''alpha''\<rparr>,
               \<lparr>row_id = ''r1'', row_chunk_index = 0, row_content = ''alpha beta''\<rparr>,
               \<lparr>row_id = ''r2'', row_chunk_index = 1, row_content = ''alpha beta again''\<rparr>],
         Some [\<lparr>row_id = ''r4'', row_chunk_index = 3, row_content = ''beta''\<rparr>,
               \<lparr>row_id = ''r1'', row_chunk_index = 0, row_content = ''alpha beta''\<rparr>,
               \<lparr>row_id = ''r2'', row_chunk_index = 1, row_content = ''alpha beta again''\<rparr>]]) =
     Inr [''r1'', ''r2'', ''r3'', ''r4''] \<and>
   (1 :: nat) < length [''r1'', ''r2'', ''r3'', ''r4'']"
  by code_simp

text \<open>
  C8, amended. Every result in the response has a score greater than or equal to the
  threshold. \<open>max_results\<close> caps the rows of each retrieval strategy, before the
  scoring; the threshold filter is the last step that selects results, so every
  candidate whose score meets the threshold is in the response.
\<close>

theorem search_results_meet_threshold:
  assumes "searchGET (Some q) threshold' maxResults' strategyRows = Inr response"
  shows "(\<forall>r\<in>set (results response). greaterEq (searchScore r) threshold') \<and>
         (\<forall>c\<in>set (combineResults (map (limitRows maxResults') strategyRows)).
            greaterEq (score (scoreChunk (preprocessQuery q) c)) threshold' \<longrightarrow>
            c \<in> hr_chunk ` set (results response)) \<and>
         (\<forall>rows\<in>set (map (limitRows maxResults') strategyRows).
            \<forall>limited. rows = Some limited \<longrightarrow> length limited \<le> maxResults')"
proof (intro conjI)
  let ?cands = "combineResults (map (limitRows maxResults') strategyRows)"
  let ?scored = "map (scoreChunk (preprocessQuery q)) ?cands"
  have route: "searchRoute (Some q) threshold' (map (limitRows maxResults') strategyRows) = Inr response"
    using assms by (simp add: searchGET_def)
  have res: "results response =
               map highlightResult (filterSearchResults (sortSearchResults ?scored) threshold')"
    by (rule searchRoute_results_exact [OF route])
  show "\<forall>r\<in>set (results response). greaterEq (searchScore r) threshold'"
    unfolding res by (auto simp: filterSearchResults_def highlightResult_def)
  show "\<forall>c\<in>set ?cands. greaterEq (score (scoreChunk (preprocessQuery q) c)) threshold' \<longrightarrow>
          c \<in> hr_chunk ` set (results response)"
  proof (intro ballI impI)
    fix c
    assume c: "c \<in> set ?cands"
      and pass: "greaterEq (score (scoreChunk (preprocessQuery q) c)) threshold'"
    have "scoreChunk (preprocessQuery q) c \<in> set (sortSearchResults ?scored)"
      using c by (simp add: set_sortSearchResults)
    then have "scoreChunk (preprocessQuery q) c
                 \<in> set (filterSearchResults (sortSearchResults ?scored) threshold')"
      using pass by (simp add: filterSearchResults_def)
    then have "highlightResult (scoreChunk (preprocessQuery q) c) \<in> set (results response)"
      unfolding res by simp
    moreover have "hr_chunk (highlightResult (scoreChunk (preprocessQuery q) c)) = c"
      by (simp add: highlightResult_def scoreChunk_def Let_def)
    ultimately show "c \<in> hr_chunk ` set (results response)"
      by (metis image_eqI)
  qed
  show "\<forall>rows\<in>set (map (limitRows maxResults') strategyRows).
          \<forall>limited. rows = Some limited \<longrightarrow> length limited \<le> maxResults'"
    by (auto simp: limitRows_def)
qed

text \<open>
  The theorem for C8 at a search for \<open>studies\<close> with threshold 10: the full-text
  strategy also returns the row \<open>study\<close>, which scores 0 and is not in the response.
\<close>

theorem search_results_meet_threshold_witness:
  "searchGET (Some ''studies'') (Finite 10) 50
     [Some [\<lparr>row_id = ''a'', row_chunk_index = 0, row_content = ''studies''\<rparr>,
            \<lparr>row_id = ''b'', row_chunk_index = 1, row_content = ''study''\<rparr>],
      Some [\<lparr>row_id = ''a'', row_chunk_index = 0, row_content = ''studies''\<rparr>],
      Some [\<lparr>row_id = ''a'', row_chunk_index = 0, row_content = ''studies''\<rparr>]] =
   Inr \<lparr>results =
      [\<lparr>hr_chunk = \<lparr>row_id = ''a'', row_chunk_index = 0, row_content = ''studies''\<rparr>,
       searchScore = 100, hr_matchType = Exact,
       hr_highlights = [HExact, HExactWords, HFuzzy 1, HFuzzy (6 / 7), HFuzzy (6 / 7),
                        HPartial, HPartial]\<rparr>],
     count = 1, totalFound = Some 2,
     responseQuery =
       \<lparr>original = ''studies'', processed = ''studies'',
        variations = [''studies'', ''studie'', ''studis''], queryKeywords = [''studies'']\<rparr>\<rparr> \<and>
   \<lparr>hr_chunk = \<lparr>row_id = ''a'', row_chunk_index = 0, row_content = ''studies''\<rparr>,
       searchScore = 100, hr_matchType = Exact,
       hr_highlights = [HExact, HExactWords, HFuzzy 1, HFuzzy (6 / 7), HFuzzy (6 / 7),
                        HPartial, HPartial]\<rparr>
     \<in> set (results
          \<lparr>results =
      [\<lparr>hr_chunk = \<lparr>row_id = ''a'', row_chunk_index = 0, row_content = ''studies''\<rparr>,
       searchScore = 100, hr_matchType = Exact,
       hr_highlights = [HExact, HExactWords, HFuzzy 1, HFuzzy (6 / 7), HFuzzy (6 / 7),
                        HPartial, HPartial]\<rparr>],
     count = 1, totalFound = Some 2,
     responseQuery =
       \<lparr>original = ''studies'', processed = ''studies'',
        variations = [''studies'', ''studie'', ''studis''], queryKeywords = [''studies'']\<rparr>\<rparr>) \<and>
   greaterEq (searchScore
     \<lparr>hr_chunk = \<lparr>row_id = ''a'', row_chunk_index = 0, row_content = ''studies''\<rparr>,
       searchScore = 100, hr_matchType = Exact,
       hr_highlights = [HExact, HExactWords, HFuzzy 1, HFuzzy (6 / 7), HFuzzy (6 / 7),
                        HPartial, HPartial]\<rparr>) (Finite 10) \<and>
   \<lparr>row_id = ''a'', row_chunk_index = 0, row_content = ''studies''\<rparr>
     \<in> set (combineResults (map (limitRows 50)
     [Some [\<lparr>row_id = ''a'', row_chunk_index = 0, row_content = ''studies''\<rparr>,
            \<lparr>row_id = ''b'', row_chunk_index = 1, row_content = ''study''\<rparr>],
      Some [\<lparr>row_id = ''a'', row_chunk_index = 0, row_content = ''studies''\<rparr>],
      Some [\<lparr>row_id = ''a'', row_chunk_index = 0, row_content = ''studies''\<rparr>]])) \<and>
   greaterEq (score (scoreChunk (preprocessQuery ''studies'') \<lparr>row_id = ''a'', row_chunk_index = 0, row_content = ''studies''\<rparr>)) (Finite 10) \<and>
   \<lparr>row_id = ''a'', row_chunk_index = 0, row_content = ''studies''\<rparr>
     \<in> hr_chunk ` set (results
          \<lparr>results =
      [\<lparr>hr_chunk = \<lparr>row_id = ''a'', row_chunk_index = 0, row_content = ''studies''\<rparr>,
       searchScore = 100, hr_matchType = Exact,
       hr_highlights = [HExact, HExactWords, HFuzzy 1, HFuzzy (6 / 7), HFuzzy (6 / 7),
                        HPartial, HPartial]\<rparr>],
     count = 1, totalFound = Some 2,
     responseQuery =
       \<lparr>original = ''studies'', processed = ''studies'',
        variations = [''studies'', ''studie'', ''studis''], queryKeywords = [''studies'']\<rparr>\<rparr>) \<and>
   Some [\<lparr>row_id = ''a'', row_chunk_index = 0, row_content = ''studies''\<rparr>]
     \<in> set (map (limitRows 50)
     [Some [\<lparr>row_id = ''a'', row_chunk_index = 0, row_content = ''studies''\<rparr>,
            \<lparr>row_id = ''b'', row_chunk_index = 1, row_content = ''study''\<rparr>],
      Some [\<lparr>row_id = ''a'', row_chunk_index = 0, row_content = ''studies''\<rparr>],
      Some [\<lparr>row_id = ''a'', row_chunk_index = 0, row_content = ''studies''\<rparr>]]) \<and>
   length [\<lparr>row_id = ''a'', row_chunk_index = 0, row_content = ''studies''\<rparr>] \<le> 50"
proof -
  have run: "searchGET (Some ''studies'') (Finite 10) 50
     [Some [\<lparr>row_id = ''a'', row_chunk_index = 0, row_content = ''studies''\<rparr>,
            \<lparr>row_id = ''b'', row_chunk_index = 1, row_content = ''study''\<rparr>],
      Some [\<lparr>row_id = ''a'', row_chunk_index = 0, row_content = ''studies''\<rparr>],
      Some [\<lparr>row_id = ''a'', row_chunk_index = 0, row_content = ''studies''\<rparr>]] =
   Inr \<lparr>results =
      [\<lparr>hr_chunk = \<lparr>row_id = ''a'', row_chunk_index = 0, row_content = ''studies''\<rparr>,
       searchScore = 100, hr_matchType = Exact,
       hr_highlights = [HExact, HExactWords, HFuzzy 1, HFuzzy (6 / 7), HFuzzy (6 / 7),
                        HPartial, HPartial]\<rparr>],
     count = 1, totalFound = Some 2,
     responseQuery =
       \<lparr>original = ''studies'', processed = ''studies'',
        variations = [''studies'', ''studie'', ''studis''], queryKeywords = [''studies'']\<rparr>\<rparr>"
    by code_simp
  have cand: "\<lparr>row_id = ''a'', row_chunk_index = 0, row_content = ''studies''\<rparr>
     \<in> set (combineResults (map (limitRows 50)
     [Some [\<lparr>row_id = ''a'', row_chunk_index = 0, row_content = ''studies''\<rparr>,
            \<lparr>row_id = ''b'', row_chunk_index = 1, row_content = ''study''\<rparr>],
      Some [\<lparr>row_id = ''a'', row_chunk_index = 0, row_content = ''studies''\<rparr>],
      Some [\<lparr>row_id = ''a'', row_chunk_index = 0, row_content = ''studies''\<rparr>]]))"
    by code_simp
  have pass: "greaterEq (score (scoreChunk (preprocessQuery ''studies'') \<lparr>row_id = ''a'', row_chunk_index = 0, row_content = ''studies''\<rparr>)) (Finite 10)"
    by code_simp
  have lim: "Some [\<lparr>row_id = ''a'', row_chunk_index = 0, row_content = ''studies''\<rparr>]
     \<in> set (map (limitRows 50)
     [Some [\<lparr>row_id = ''a'', row_chunk_index = 0, row_content = ''studies''\<rparr>,
            \<lparr>row_id = ''b'', row_chunk_index = 1, row_content = ''study''\<rparr>],
      Some [\<lparr>row_id = ''a'', row_chunk_index = 0, row_content = ''studies''\<rparr>],
      Some [\<lparr>row_id = ''a'', row_chunk_index = 0, row_content = ''studies''\<rparr>]])"
    by code_simp
  show ?thesis
    using run cand pass lim search_results_meet_threshold [OF run]
    by (simp add: limitRows_def)
qed

subsection \<open>C10: a query that normalizes to the empty string\<close>

text \<open>
  C10. A query that is not empty and whose processed form is empty is not rejected by
  the route, and \<open>calculateSearchScore\<close> gives every content the score 100 with the
  match type \<open>exact\<close>: the empty string is contained in every content (100 points, and
  20 more as the only variation), no word and no fuzzy match adds to that, and the
  result is clipped to 100.
\<close>

theorem empty_processed_query_scores_100:
  assumes "query \<noteq> []" "processed (preprocessQuery query) = []"
  shows "\<not> isl (searchRoute (Some query) threshold' searchResults) \<and>
         calculateSearchScore content' (processed (preprocessQuery query))
             (variations (preprocessQuery query)) options =
           \<lparr>res_score = 100, res_matchType = Exact, res_highlights = [HExact, HPartial]\<rparr> \<and>
         scoreChunk (preprocessQuery query) c =
           \<lparr>chunk = c, score = 100, highlights = [HExact, HPartial], matchType = Exact\<rparr>"
proof -
  have v: "variations (preprocessQuery query) = [[]]"
    using assms(2) by (simp add: variations_preprocessQuery generateQueryVariations_empty)
  have a: "\<not> isl (searchRoute (Some query) threshold' searchResults)"
    using assms(1) by (simp add: searchRoute_def Let_def)
  have b: "calculateSearchScore x (processed (preprocessQuery query))
             (variations (preprocessQuery query)) opts =
           \<lparr>res_score = 100, res_matchType = Exact, res_highlights = [HExact, HPartial]\<rparr>" for x opts
    unfolding v assms(2) by (rule calculateSearchScore_empty)
  have "scoreChunk (preprocessQuery query) c =
           \<lparr>chunk = c, score = 100, highlights = [HExact, HPartial], matchType = Exact\<rparr>"
    by (simp add: scoreChunk_def Let_def b)
  then show ?thesis using a b by simp
qed

text \<open>The theorem for C10 at the query \<open>?!\<close>, whose processed form is empty.\<close>

theorem empty_processed_query_scores_100_witness:
  "''?!'' \<noteq> [] \<and> processed (preprocessQuery ''?!'') = [] \<and>
   \<not> isl (searchRoute (Some ''?!'') (Finite 10)
            [Some [\<lparr>row_id = ''a'', row_chunk_index = 0, row_content = ''Hello world''\<rparr>]]) \<and>
   calculateSearchScore ''Hello world'' (processed (preprocessQuery ''?!''))
       (variations (preprocessQuery ''?!''))
       \<lparr>threshold = None, maxResults = None, includePartial = None, boostExact = Some True\<rparr> =
     \<lparr>res_score = 100, res_matchType = Exact, res_highlights = [HExact, HPartial]\<rparr>"
proof -
  have h1: "''?!'' \<noteq> []" by simp
  have h2: "processed (preprocessQuery ''?!'') = []" by code_simp
  show ?thesis
    using h1 h2 empty_processed_query_scores_100 [OF h1 h2, of "Finite 10"
        "[Some [\<lparr>row_id = ''a'', row_chunk_index = 0, row_content = ''Hello world''\<rparr>]]"
        "''Hello world''"
        "\<lparr>threshold = None, maxResults = None, includePartial = None, boostExact = Some True\<rparr>"]
    by blast
qed

end
